theory Spec2Isabelle
  imports Main "HOL-Library.Word"
begin

unbundle bit_operations_syntax

section \<open>Common types\<close>

type_synonym u8 = "8 word"
type_synonym u16 = "16 word"
type_synonym u32 = "32 word"
type_synonym u64 = "64 word"

text \<open>
  The negative return codes of \<^verbatim>\<open>ingenialink/err.h\<close> that the modelled functions
  return. Every one of them is negative in C, so the test \<^verbatim>\<open>r < 0\<close> of the source is
  ``the call returned one of these''.
\<close>

datatype il_err =
    IL_EFAIL | IL_EINVAL | IL_ETIMEDOUT | IL_ENOMEM | IL_EALREADY
  | IL_ESTATE | IL_EIO | IL_ENOTSUP | IL_EFAULT
  | SER_ERR int  \<comment> \<open>a negative code of the serial library, returned unchanged\<close>

text \<open>
  The process-wide last-error string written by \<^verbatim>\<open>ilerr__set\<close>, one constructor per
  format string of the functions whose message a property below speaks of, with the
  interpolated value as argument.
\<close>

datatype il_msg =
    Msg_crc_mismatch            \<comment> \<open>"Communications error (CRC mismatch)"\<close>
  | Msg_nack u32                \<comment> \<open>"Communications error (NACK -> %08x)"\<close>
  | Msg_lang_not_available string  \<comment> \<open>"Language not available (%s)"\<close>

section \<open>Memory views (little-endian host)\<close>

text \<open>
  \<^verbatim>\<open>eth/net.c\<close> is Windows code (winsock2): the host is little-endian. A
  \<^verbatim>\<open>uint16_t\<close> in memory is its low byte followed by its high byte; the frame array
  seen through \<^verbatim>\<open>(uint8_t *)\<close> is the concatenation of these pairs.
\<close>

definition word_bytes :: "u16 \<Rightarrow> u8 list" where
  "word_bytes w = [ucast w, ucast (drop_bit 8 w)]"

definition frame_bytes :: "u16 list \<Rightarrow> u8 list" where
  "frame_bytes ws = concat (map word_bytes ws)"

definition le16 :: "u8 \<Rightarrow> u8 \<Rightarrow> u16" where
  "le16 lo hi = ucast lo OR push_bit 8 (ucast hi)"

fun bytes_words :: "u8 list \<Rightarrow> u16 list" where
  "bytes_words (lo # hi # bs) = le16 lo hi # bytes_words bs"
| "bytes_words bs = []"

text \<open>
  \<^verbatim>\<open>memcpy(dst, src, n)\<close> on the contents of the destination object: the first
  \<open>n\<close> bytes are replaced by the first \<open>n\<close> bytes of the source. It is C's memcpy
  as long as \<open>n\<close> is within both objects; the callers below check that where the
  source does not.
\<close>

definition memcpy :: "u8 list \<Rightarrow> u8 list \<Rightarrow> nat \<Rightarrow> u8 list" where
  "memcpy dst src n = take n src @ drop n dst"

section \<open>CRC of the TCP profile (eth/net.c)\<close>

text \<open>
  \<^verbatim>\<open>init_crcccitt_tab_eth\<close>: the inner loop over \<open>j\<close>, then the table of 256 entries.
  The table is filled once on first use; its contents do not depend on when.
\<close>

fun tab_loop :: "nat \<Rightarrow> u16 \<Rightarrow> u16 \<Rightarrow> u16" where
  "tab_loop 0 crc c = crc"
| "tab_loop (Suc j) crc c =
     tab_loop j
       (if (crc XOR c) AND 0x8000 \<noteq> 0 then push_bit 1 crc XOR 0x1021 else push_bit 1 crc)
       (push_bit 1 c)"

definition tab_entry :: "u16 \<Rightarrow> u16" where
  "tab_entry i = tab_loop 8 0 (push_bit 8 i)"

definition init_crcccitt_tab_eth :: "u16 list" where
  "init_crcccitt_tab_eth = map (\<lambda>i. tab_entry (of_nat i)) [0..<256]"

definition update_crc_ccitt_eth :: "u16 \<Rightarrow> u8 \<Rightarrow> u16" where
  "update_crc_ccitt_eth crc c =
     push_bit 8 crc XOR
     init_crcccitt_tab_eth ! unat ((drop_bit 8 crc XOR ucast c) AND 0x00FF)"

text \<open>The loop of \<^verbatim>\<open>crc_calc_eth\<close> over a byte sequence, starting from 0x0000.\<close>

definition crc_bytes :: "u8 list \<Rightarrow> u16" where
  "crc_bytes bs = foldl update_crc_ccitt_eth 0x0000 bs"

text \<open>
  \<^verbatim>\<open>crc_calc_eth(buf, u16Sz)\<close>: the first \<open>2 * u16Sz\<close> bytes of the word buffer. Both
  callers pass 6.
\<close>

definition crc_calc_eth :: "u16 list \<Rightarrow> nat \<Rightarrow> u16" where
  "crc_calc_eth buf u16Sz = crc_bytes (take (2 * u16Sz) (frame_bytes buf))"

text \<open>
  The CRC as the specification words it: CRC-CCITT, polynomial 0x1021, initial value
  0x0000, each byte taken most significant bit first, no final XOR. One bit step shifts
  the register left and reduces by the polynomial when a one falls out; a byte is XORed
  into the high half of the register and followed by eight bit steps.
\<close>

definition ccitt_bit_step :: "u16 \<Rightarrow> u16" where
  "ccitt_bit_step x = (if bit x 15 then push_bit 1 x XOR 0x1021 else push_bit 1 x)"

definition ccitt_byte_step :: "u16 \<Rightarrow> u8 \<Rightarrow> u16" where
  "ccitt_byte_step crc c = (ccitt_bit_step ^^ 8) (crc XOR push_bit 8 (ucast c))"

definition crc_ccitt_spec :: "u8 list \<Rightarrow> u16" where
  "crc_ccitt_spec bs = foldl ccitt_byte_step 0x0000 bs"

section \<open>TCP frames (eth/net.c)\<close>

text \<open>
  Modelled from the spec: the macros of \<^verbatim>\<open>eth/frame.h\<close>, which is not under src.
  The spec gives the layout (word 0 HDR_H, word 1 HDR_L, words 2..5 DATA, word 6 CRC,
  seven words), the position of the command in HDR_L
  (\<^verbatim>\<open>(address << 4) | (cmd << 1) | pending\<close>) and the command codes READ=1, WRITE=2,
  ACK=3. The default node \<^verbatim>\<open>ETH_MCB_NODE_DFLT\<close> has no value in the spec and is a
  parameter of \<open>net_send\<close>.
\<close>

definition ETH_MCB_FRAME_SZ :: nat where "ETH_MCB_FRAME_SZ = 7"
definition ETH_MCB_HDR_H_POS :: nat where "ETH_MCB_HDR_H_POS = 0"
definition ETH_MCB_HDR_L_POS :: nat where "ETH_MCB_HDR_L_POS = 1"
definition ETH_MCB_DATA_POS :: nat where "ETH_MCB_DATA_POS = 2"
definition ETH_MCB_CRC_POS :: nat where "ETH_MCB_CRC_POS = 6"
definition ETH_MCB_CMD_MSK :: u16 where "ETH_MCB_CMD_MSK = 0x000E"
definition ETH_MCB_CMD_POS :: nat where "ETH_MCB_CMD_POS = 1"
definition ETH_MCB_CMD_READ :: u8 where "ETH_MCB_CMD_READ = 1"
definition ETH_MCB_CMD_WRITE :: u8 where "ETH_MCB_CMD_WRITE = 2"
definition ETH_MCB_CMD_ACK :: u16 where "ETH_MCB_CMD_ACK = 3"

text \<open>
  \<^verbatim>\<open>net_send\<close>. The loop body runs once (\<open>finished\<close> is set at its end or the
  function returns). \<open>d\<close> is eight zero bytes overwritten by \<open>memcpy(&d, data, sz)\<close>;
  the union reads them back as four 16-bit words, which are copied into the frame.
  \<open>send_res\<close> is what \<^verbatim>\<open>send\<close> did with the frame: \<open>None\<close> when it returned a
  non-negative count, \<open>Some e\<close> when it failed and \<^verbatim>\<open>ilerr__ser\<close> (not under src)
  turned its code into \<open>e\<close>. The result is the frame handed to \<^verbatim>\<open>send\<close> and the
  return code. With \<open>sz > 8\<close> the memcpy overruns \<open>d\<close>, and with \<open>sz\<close> beyond the
  caller's data it reads past it: C leaves both undefined, the model returns \<open>None\<close>.
\<close>

definition net_send ::
  "u16 \<Rightarrow> il_err option \<Rightarrow> u8 \<Rightarrow> u16 \<Rightarrow> u8 list \<Rightarrow> nat \<Rightarrow> (u16 list \<times> il_err option) option"
where
  "net_send node_dflt send_res subnode address data sz =
     (if sz > 8 \<or> sz > length data then None
      else
        let cmd = (if sz \<noteq> 0 then ETH_MCB_CMD_WRITE else ETH_MCB_CMD_READ);
            pending = (0 :: u16);
            hdr_h = push_bit 4 node_dflt OR ucast subnode;
            hdr_l = push_bit 4 address OR push_bit 1 (ucast cmd) OR pending;
            d = (if sz > 0 then memcpy (replicate 8 0) data sz else replicate 8 0);
            frame0 = [hdr_h, hdr_l] @ bytes_words d;
            crc = crc_calc_eth frame0 ETH_MCB_CRC_POS;
            frame = frame0 @ [crc]
        in Some (frame, send_res))"

text \<open>
  Modelled from the spec: \<^verbatim>\<open>__swap_be_32\<close> of \<^verbatim>\<open>utils.h\<close>, which is not under src,
  turns a big-endian 32-bit value into the host's; on the little-endian host it reverses
  the four bytes. \<open>load_u32\<close> is the host's read \<^verbatim>\<open>*(uint32_t *)&frame[pos]\<close>.
\<close>

definition load_u32 :: "u16 list \<Rightarrow> nat \<Rightarrow> u32" where
  "load_u32 frame pos = ucast (frame ! pos) OR push_bit 16 (ucast (frame ! (pos + 1)))"

definition byte_of :: "u32 \<Rightarrow> nat \<Rightarrow> u8" where
  "byte_of x n = ucast (drop_bit (8 * n) x)"

definition swap_be_32 :: "u32 \<Rightarrow> u32" where
  "swap_be_32 x =
     push_bit 24 (ucast (byte_of x 0)) OR push_bit 16 (ucast (byte_of x 1)) OR
     push_bit 8 (ucast (byte_of x 2)) OR ucast (byte_of x 3)"

text \<open>
  \<^verbatim>\<open>net_recv\<close>. \<open>frame\<close> is the local array after \<^verbatim>\<open>recv\<close> wrote into it (the
  source does not look at what \<^verbatim>\<open>recv\<close> returned); \<open>buf\<close> is the caller's buffer.
  A failure carries the return code and the message left in the last-error string;
  success returns the caller's buffer. The copy is C's as long as \<open>sz\<close> is at most
  the ten bytes that follow DATA_POS in the frame.
\<close>

definition net_recv :: "u16 list \<Rightarrow> u8 list \<Rightarrow> nat \<Rightarrow> (il_err \<times> il_msg) + u8 list" where
  "net_recv frame buf sz =
     (let crc = frame ! 6;
          crc_res = crc_calc_eth frame 6
      in if crc_res \<noteq> crc then Inl (IL_EIO, Msg_crc_mismatch)
         else
           let hdr_l = frame ! ETH_MCB_HDR_L_POS;
               cmd = drop_bit ETH_MCB_CMD_POS (hdr_l AND ETH_MCB_CMD_MSK)
           in if cmd \<noteq> ETH_MCB_CMD_ACK
              then Inl (IL_EIO, Msg_nack (swap_be_32 (load_u32 frame ETH_MCB_DATA_POS)))
              else if sz = 0 then Inr buf
              else Inr (memcpy buf (drop (2 * ETH_MCB_DATA_POS) (frame_bytes frame)) sz))"

text \<open>A four-byte sequence read as a big-endian 32-bit value.\<close>

definition be32 :: "u8 list \<Rightarrow> u32" where
  "be32 bs =
     push_bit 24 (ucast (bs ! 0)) OR push_bit 16 (ucast (bs ! 1)) OR
     push_bit 8 (ucast (bs ! 2)) OR ucast (bs ! 3)"

section \<open>Register labels (registers.c)\<close>

text \<open>
  A labels dictionary is a hash table from language tags to strings (khash, keyed by
  string). \<^verbatim>\<open>kh_get\<close> returns \<^verbatim>\<open>kh_end\<close> exactly when the key is absent.
\<close>

type_synonym il_reg_labels = "string \<rightharpoonup> string"

definition il_reg_labels_create :: il_reg_labels where
  "il_reg_labels_create = Map.empty"

definition il_reg_labels_set :: "il_reg_labels \<Rightarrow> string \<Rightarrow> string \<Rightarrow> il_reg_labels" where
  "il_reg_labels_set labels lang label = labels(lang \<mapsto> label)"

definition il_reg_labels_get :: "il_reg_labels \<Rightarrow> string \<Rightarrow> (il_err \<times> il_msg) + string" where
  "il_reg_labels_get labels lang =
     (case labels lang of
        None \<Rightarrow> Inl (IL_EFAIL, Msg_lang_not_available lang)
      | Some label \<Rightarrow> Inr label)"

text \<open>
  Modelled from the spec: the error kinds of the specification's taxonomy (its section
  on error handling), and the kind each return code of the source stands for, by name.
  \<open>ErrFail\<close> is the generic failure the specification's session engine returns
  besides \<open>ErrTimeout\<close>. No return code of the source stands for \<open>ErrParse\<close> or
  \<open>ErrUnknownLang\<close>.
\<close>

datatype err_kind =
    ErrInvalid | ErrState | ErrAlready | ErrNoMem | ErrIO | ErrTimeout
  | ErrNotSupported | ErrParse | ErrUnknownLang | ErrFault | ErrFail

fun kind_of :: "il_err \<Rightarrow> err_kind" where
  "kind_of IL_EFAIL = ErrFail"
| "kind_of IL_EINVAL = ErrInvalid"
| "kind_of IL_ETIMEDOUT = ErrTimeout"
| "kind_of IL_ENOMEM = ErrNoMem"
| "kind_of IL_EALREADY = ErrAlready"
| "kind_of IL_ESTATE = ErrState"
| "kind_of IL_EIO = ErrIO"
| "kind_of IL_ENOTSUP = ErrNotSupported"
| "kind_of IL_EFAULT = ErrFault"
| "kind_of (SER_ERR c) = ErrIO"

section \<open>Statusword subscribers (net.c)\<close>

text \<open>
  A subscriber \<^verbatim>\<open>{id, cb, ctx}\<close>; a callback and a context are pointers, modelled
  by their addresses (0 is NULL). The array is the contents of the allocated block,
  index by index, whatever they are; \<open>subs_alloc\<close> is the number of entries the
  block holds, which C does not store. A call of a callback is recorded as
  (callback, context, statusword).
\<close>

record il_net_sw_subscriber =
  sub_id :: u8
  sub_cb :: nat
  sub_ctx :: nat

record il_net_sw_subscriber_lst =
  subs :: "nat \<Rightarrow> il_net_sw_subscriber"
  subs_alloc :: nat
  subs_cnt :: nat
  subs_sz :: nat

type_synonym sw_call = "nat \<times> nat \<times> u16"

text \<open>
  The registry as \<^verbatim>\<open>il_net_create\<close> leaves it: a block of \<^verbatim>\<open>SW_SUBS_SZ_DEF\<close>
  entries of indeterminate contents, no subscriber. The macro is not under src and the
  specification gives it no value: it is the parameter \<open>sw_subs_sz_def\<close>.
\<close>

definition sw_subs_create ::
  "nat \<Rightarrow> (nat \<Rightarrow> il_net_sw_subscriber) \<Rightarrow> il_net_sw_subscriber_lst" where
  "sw_subs_create sw_subs_sz_def garbage =
     \<lparr>subs = garbage, subs_alloc = sw_subs_sz_def, subs_cnt = 0, subs_sz = sw_subs_sz_def\<rparr>"

text \<open>
  \<^verbatim>\<open>il_net__sw_subscribe\<close>. \<open>esz\<close> is \<^verbatim>\<open>sizeof(il_net_sw_subscriber_t)\<close> and
  \<open>realloc_ok\<close> says whether \<^verbatim>\<open>realloc\<close> would succeed. The source computes the new
  size in bytes, \<^verbatim>\<open>sz = 2 * net->sw_subs.sz * sizeof(*subs)\<close>, reallocates to it and
  stores that same \<open>sz\<close> in \<^verbatim>\<open>net->sw_subs.sz\<close>; the new block holds
  \<open>sz div esz\<close> entries. The result is the return code (\<open>None\<close> for 0) and the
  registry; the outer \<open>None\<close> is a write past the end of the block.
\<close>

definition il_net__sw_subscribe ::
  "nat \<Rightarrow> bool \<Rightarrow> il_net_sw_subscriber_lst \<Rightarrow> u8 \<Rightarrow> nat \<Rightarrow> nat
     \<Rightarrow> (il_err option \<times> il_net_sw_subscriber_lst) option" where
  "il_net__sw_subscribe esz realloc_ok sw id' cb ctx =
     (if subs_cnt sw = subs_sz sw \<and> \<not> realloc_ok then Some (Some IL_ENOMEM, sw)
      else
        let sw1 = (if subs_cnt sw = subs_sz sw
                   then let sz = 2 * subs_sz sw * esz
                        in sw\<lparr>subs_alloc := sz div esz, subs_sz := sz\<rparr>
                   else sw)
        in if subs_cnt sw1 < subs_alloc sw1
           then Some (None,
                  sw1\<lparr>subs := (subs sw1)(subs_cnt sw1 := \<lparr>sub_id = id', sub_cb = cb, sub_ctx = ctx\<rparr>),
                      subs_cnt := subs_cnt sw1 + 1\<rparr>)
           else None)"

text \<open>Subscribing one after the other, every \<^verbatim>\<open>realloc\<close> succeeding.\<close>

fun subscribe_all ::
  "nat \<Rightarrow> il_net_sw_subscriber_lst \<Rightarrow> il_net_sw_subscriber list \<Rightarrow> il_net_sw_subscriber_lst option"
where
  "subscribe_all esz sw [] = Some sw"
| "subscribe_all esz sw (x # xs) =
     (case il_net__sw_subscribe esz True sw (sub_id x) (sub_cb x) (sub_ctx x) of
        None \<Rightarrow> None
      | Some (r, sw') \<Rightarrow> subscribe_all esz sw' xs)"

section \<open>Serial frames and the listener's dispatch (net.c)\<close>

text \<open>
  Modelled from the spec: a decoded frame of the serial profile, as the accessors
  \<^verbatim>\<open>il_frame__get_id\<close>, \<^verbatim>\<open>il_frame__get_idx\<close>, \<^verbatim>\<open>il_frame__get_sidx\<close>,
  \<^verbatim>\<open>il_frame__get_sz\<close> and \<^verbatim>\<open>il_frame__get_data\<close> of \<^verbatim>\<open>frame.h\<close> (not under
  src) return it: node id (8 bits), index (16 bits), sub-index (8 bits), payload size,
  and the bytes that start at the payload inside the frame buffer (at least the payload).
\<close>

record il_frame =
  il_frame__get_id :: u8
  il_frame__get_idx :: u16
  il_frame__get_sidx :: u8
  il_frame__get_sz :: nat
  il_frame__get_data :: "u8 list"

text \<open>
  Modelled from the spec: \<^verbatim>\<open>__swap_16(*(uint16_t *)p)\<close> of \<^verbatim>\<open>utils.h\<close> (not under
  src) reads the two bytes at \<open>p\<close> as a little-endian 16-bit value, on any host.
\<close>

definition swap_16_at :: "u8 list \<Rightarrow> u16" where
  "swap_16_at p = le16 (p ! 0) (p ! 1)"

text \<open>
  The loop of the serial \<^verbatim>\<open>process_statusword\<close> over the first \<open>cnt\<close> entries: every
  entry whose id matches is called, in order.
\<close>

fun sw_notify_all :: "u8 \<Rightarrow> u16 \<Rightarrow> il_net_sw_subscriber list \<Rightarrow> sw_call list" where
  "sw_notify_all id' sw [] = []"
| "sw_notify_all id' sw (x # xs) =
     (if sub_id x = id' then (sub_cb x, sub_ctx x, sw) # sw_notify_all id' sw xs
      else sw_notify_all id' sw xs)"

text \<open>
  \<^verbatim>\<open>process_statusword\<close> of net.c; the result is the calls it made. The macros
  \<^verbatim>\<open>STATUSWORD_IDX\<close> and \<^verbatim>\<open>STATUSWORD_SIDX\<close> are not under src: they are the
  parameters \<open>statusword_idx\<close> and \<open>statusword_sidx\<close>.
\<close>

definition process_statusword ::
  "u16 \<Rightarrow> u8 \<Rightarrow> il_net_sw_subscriber_lst \<Rightarrow> il_frame \<Rightarrow> sw_call list" where
  "process_statusword statusword_idx statusword_sidx sw_subs frame =
     (let idx = il_frame__get_idx frame;
          sidx = il_frame__get_sidx frame
      in if idx = statusword_idx \<and> sidx = statusword_sidx
         then
           let id' = il_frame__get_id frame;
               sw = swap_16_at (il_frame__get_data frame)
           in sw_notify_all id' sw (map (subs sw_subs) [0..<subs_cnt sw_subs])
         else [])"

text \<open>
  The synchronous-transfer slot \<^verbatim>\<open>net->sync\<close>. \<open>sync_buf\<close> is the contents of the
  caller's buffer the slot points to; \<open>sync_recvd\<close> is the caller's size cell
  (\<open>None\<close> for a NULL pointer); \<open>sync_complete\<close> is the int flag the source only sets
  to 0 and 1 and only tests for zero; \<open>sync_signals\<close> counts the calls of
  \<^verbatim>\<open>osal_cond_signal\<close> on the slot's condition variable.
\<close>

record il_net_sync =
  sync_id :: u8
  sync_idx :: u16
  sync_sidx :: u8
  sync_buf :: "u8 list"
  sync_sz :: nat
  sync_recvd :: "nat option"
  sync_complete :: bool
  sync_signals :: nat

definition process_sync :: "il_net_sync \<Rightarrow> il_frame \<Rightarrow> il_net_sync" where
  "process_sync sync frame =
     (if \<not> sync_complete sync then
        let id' = il_frame__get_id frame;
            idx = il_frame__get_idx frame;
            sidx = il_frame__get_sidx frame;
            sz = il_frame__get_sz frame
        in if (sync_id sync = id' \<or> sync_id sync = 0) \<and>
              sync_idx sync = idx \<and> sync_sidx sync = sidx \<and>
              sync_sz sync \<ge> sz
           then
             let data = il_frame__get_data frame
             in sync\<lparr>sync_buf := memcpy (sync_buf sync) data sz,
                     sync_recvd := (case sync_recvd sync of None \<Rightarrow> None | Some old \<Rightarrow> Some sz),
                     sync_complete := True,
                     sync_signals := sync_signals sync + 1\<rparr>
           else sync
      else sync)"

section \<open>Synchronous read of the serial profile (net.c)\<close>

datatype il_net_state = IL_NET_STATE_OPERATIVE | IL_NET_STATE_FAULTY | IL_NET_STATE_UNKNOWN

record il_net =
  net_state :: il_net_state
  net_sync :: il_net_sync

text \<open>
  What \<^verbatim>\<open>osal_cond_wait\<close> returned: 0, \<^verbatim>\<open>OSAL_ETIMEDOUT\<close>, or another negative code.
\<close>

datatype osal_wait = OSAL_OK | OSAL_ETIMEDOUT | OSAL_EFAIL

text \<open>
  What happens around one call of \<^verbatim>\<open>il_net__read\<close>: the result of \<^verbatim>\<open>ser_write\<close>
  (negative on failure), the frames the listener hands to \<open>process_sync\<close> while the
  caller does not hold \<^verbatim>\<open>sync.lock\<close> (between the unlock and the lock that follow the
  write, and inside \<^verbatim>\<open>osal_cond_wait\<close>, which releases the lock while it waits), and
  what the wait returns.
\<close>

record read_env =
  ser_write_res :: int
  frames_before_wait :: "il_frame list"
  frames_during_wait :: "il_frame list"
  cond_wait_res :: osal_wait

text \<open>What the caller does to the slot and its lock, in program order.\<close>

datatype sync_event = Lock_sync | Unlock_sync | Cond_wait | Set_complete bool

text \<open>
  \<^verbatim>\<open>il_net__read\<close>. The result is the return code (\<open>None\<close> for 0), the network and
  the caller's events on the slot. On a failed write the source returns the serial
  library's code \<open>r\<close> itself.
\<close>

definition il_net__read ::
  "read_env \<Rightarrow> il_net \<Rightarrow> u8 \<Rightarrow> u16 \<Rightarrow> u8 \<Rightarrow> u8 list \<Rightarrow> nat \<Rightarrow> nat option \<Rightarrow> int
     \<Rightarrow> il_err option \<times> il_net \<times> sync_event list" where
  "il_net__read env net id' idx sidx buf sz recvd timeout =
     (if net_state net \<noteq> IL_NET_STATE_OPERATIVE then (Some IL_ESTATE, net, [])
      else
        let sync0 = (net_sync net)\<lparr>sync_id := id', sync_idx := idx, sync_sidx := sidx,
                       sync_buf := buf, sync_sz := sz, sync_recvd := recvd,
                       sync_complete := False\<rparr>;
            ev0 = [Lock_sync, Set_complete False]
        in if ser_write_res env < 0
           then (Some (SER_ERR (ser_write_res env)),
                 net\<lparr>net_sync := sync0\<lparr>sync_complete := True\<rparr>\<rparr>,
                 ev0 @ [Set_complete True, Unlock_sync])
           else
             let sync1 = foldl process_sync sync0 (frames_before_wait env);
                 ev1 = ev0 @ [Unlock_sync, Lock_sync]
             in if \<not> sync_complete sync1
                then
                  let sync2 = foldl process_sync sync1 (frames_during_wait env);
                      r = (case cond_wait_res env of
                             OSAL_ETIMEDOUT \<Rightarrow> Some IL_ETIMEDOUT
                           | OSAL_EFAIL \<Rightarrow> Some IL_EFAIL
                           | OSAL_OK \<Rightarrow> None)
                  in (r, net\<lparr>net_sync := sync2\<lparr>sync_complete := True\<rparr>\<rparr>,
                      ev1 @ [Cond_wait, Set_complete True, Unlock_sync])
                else (None, net\<lparr>net_sync := sync1\<lparr>sync_complete := True\<rparr>\<rparr>,
                      ev1 @ [Set_complete True, Unlock_sync]))"

section \<open>Statusword dispatch, listener and reconnection of the TCP profile (eth/net.c)\<close>

text \<open>
  The loop of the TCP \<^verbatim>\<open>process_statusword\<close> over the \<open>sz\<close> entries of the registry:
  the first entry whose id matches and whose callback is not NULL is called, and the loop
  stops (\<^verbatim>\<open>break\<close>).
\<close>

fun sw_notify_first :: "u8 \<Rightarrow> u16 \<Rightarrow> il_net_sw_subscriber list \<Rightarrow> sw_call list" where
  "sw_notify_first id' sw [] = []"
| "sw_notify_first id' sw (x # xs) =
     (if sub_id x = id' \<and> sub_cb x \<noteq> 0 then [(sub_cb x, sub_ctx x, sw)]
      else sw_notify_first id' sw xs)"

text \<open>
  \<^verbatim>\<open>process_statusword\<close> of eth/net.c. \<open>data\<close> is the pointer argument, an address;
  the source assigns it to the 16-bit \<open>sw\<close> (\<^verbatim>\<open>sw = data;\<close>), which keeps the low 16
  bits of the address. The memory it points to is not read.
\<close>

definition process_statusword_eth ::
  "il_net_sw_subscriber_lst \<Rightarrow> u8 \<Rightarrow> u64 \<Rightarrow> sw_call list" where
  "process_statusword_eth sw_subs subnode data =
     (let id' = subnode;
          sw = (ucast data :: u16)
      in sw_notify_first id' sw (map (subs sw_subs) [0..<subs_sz sw_subs]))"

text \<open>
  The world of the TCP listener thread: the default node of the frame header, the
  address of its local \<open>buf\<close>, and per occurrence (counted from 0) what \<^verbatim>\<open>send\<close> did
  at a poll, the frame array after \<^verbatim>\<open>recv\<close> at a poll, the registry at a poll, the
  return value of \<^verbatim>\<open>connect\<close> at an attempt, and the value of
  \<^verbatim>\<open>this->stop_reconnect\<close> at a read (another thread sets it).
\<close>

record eth_env =
  e_node_dflt :: u16
  e_buf_addr :: u64
  e_send :: "nat \<Rightarrow> il_err option"
  e_recv :: "nat \<Rightarrow> u16 list"
  e_subs :: "nat \<Rightarrow> il_net_sw_subscriber_lst"
  e_connect :: "nat \<Rightarrow> int"
  e_stop_reconnect :: "nat \<Rightarrow> int"

text \<open>
  The listener's variables (\<open>error_count\<close>, \<open>buf\<close>, \<^verbatim>\<open>this->stop\<close>), the number
  of polls, connection attempts, flag reads and reconnect invocations so far, and the
  callback calls made so far, oldest first.
\<close>

record listener_state =
  error_count :: int
  l_buf :: u16
  l_stop :: int
  polls :: nat
  connects :: nat
  flag_reads :: nat
  reconnects :: nat
  calls :: "sw_call list"

text \<open>
  One iteration of the \<^verbatim>\<open>while\<close> loop of \<^verbatim>\<open>listener_eth\<close>. The statements after the
  label \<^verbatim>\<open>unlock\<close> run on every path. \<open>net_send\<close> with size 0 is always defined.
\<close>

definition poll_body :: "eth_env \<Rightarrow> listener_state \<Rightarrow> listener_state" where
  "poll_body e s =
     (let k = polls s;
          s1 = (case net_send (e_node_dflt e) (e_send e k) 1 0x0011 [] 0 of
                  None \<Rightarrow> s
                | Some (frame, Some err) \<Rightarrow> s\<lparr>error_count := error_count s + 1\<rparr>
                | Some (frame, None) \<Rightarrow>
                    (case net_recv (e_recv e k) (word_bytes (l_buf s)) 2 of
                       Inl err \<Rightarrow> s\<lparr>error_count := error_count s + 1\<rparr>
                     | Inr b \<Rightarrow> s\<lparr>error_count := 0, l_buf := le16 (b ! 0) (b ! 1)\<rparr>))
      in s1\<lparr>calls := calls s1 @ process_statusword_eth (e_subs e k) 1 (e_buf_addr e),
            polls := k + 1\<rparr>)"

partial_function (option) poll_loop :: "eth_env \<Rightarrow> listener_state \<Rightarrow> listener_state option" where
  "poll_loop e s = (if error_count s < 10 then poll_loop e (poll_body e s) else Some s)"

text \<open>
  The loop of \<^verbatim>\<open>il_net_reconnect\<close>; the flag is read only when \<open>r < 0\<close>
  (\<^verbatim>\<open>&&\<close>). Then the function itself: it returns the flag, read once more.
\<close>

partial_function (option) reconnect_loop ::
  "eth_env \<Rightarrow> int \<Rightarrow> listener_state \<Rightarrow> listener_state option" where
  "reconnect_loop e r s =
     (if r < 0 then
        (if e_stop_reconnect e (flag_reads s) = 0 then
           (let r' = e_connect e (connects s)
            in reconnect_loop e r'
                 (s\<lparr>flag_reads := flag_reads s + 1, connects := connects s + 1,
                    l_stop := (if r' < 0 then l_stop s else 0)\<rparr>))
         else Some (s\<lparr>flag_reads := flag_reads s + 1\<rparr>))
      else Some s)"

definition il_net_reconnect :: "eth_env \<Rightarrow> listener_state \<Rightarrow> (int \<times> listener_state) option" where
  "il_net_reconnect e s =
     (case reconnect_loop e (- 1) (s\<lparr>l_stop := 1\<rparr>) of
        None \<Rightarrow> None
      | Some s' \<Rightarrow> Some (e_stop_reconnect e (flag_reads s'), s'\<lparr>flag_reads := flag_reads s' + 1\<rparr>))"

text \<open>
  \<^verbatim>\<open>listener_eth\<close> from the label \<^verbatim>\<open>restart\<close>: the poll loop, then the reconnection
  when the counter is 10, then \<^verbatim>\<open>goto restart\<close> when it returned 0. The thread
  function returns 0 on every path; the result is the state it leaves. \<open>None\<close>: it
  never returns.
\<close>

partial_function (option) listener_eth :: "eth_env \<Rightarrow> listener_state \<Rightarrow> listener_state option" where
  "listener_eth e s =
     (case poll_loop e (s\<lparr>error_count := 0\<rparr>) of
        None \<Rightarrow> None
      | Some s1 \<Rightarrow>
          if error_count s1 = 10 then
            (case il_net_reconnect e (s1\<lparr>reconnects := reconnects s1 + 1\<rparr>) of
               None \<Rightarrow> None
             | Some (r, s2) \<Rightarrow> if r = 0 then listener_eth e s2 else Some s2)
          else Some s1)"

text \<open>Whether the poll numbered \<open>k\<close> succeeds: the send, then the receive.\<close>

definition poll_ok :: "eth_env \<Rightarrow> nat \<Rightarrow> bool" where
  "poll_ok e k = (e_send e k = None \<and> (\<exists>b. net_recv (e_recv e k) [0, 0] 2 = Inr b))"

section \<open>Properties of the CRC and of the TCP frame\<close>


lemma bit15_mask: "((x::u16) AND 0x8000 \<noteq> 0) = bit x 15"
proof -
  have "(0x8000::u16) = 2 ^ 15" by simp
  then show ?thesis by (simp only: and_exp_eq_0_iff_not_bit not_not)
qed

lemma step_linear: "ccitt_bit_step (x XOR y) = ccitt_bit_step x XOR ccitt_bit_step y"
  unfolding ccitt_bit_step_def
  by (simp add: bit_xor_iff push_bit_xor xor.assoc xor.commute xor.left_commute)

lemma steps_linear: "(ccitt_bit_step ^^ n) (x XOR y) = (ccitt_bit_step ^^ n) x XOR (ccitt_bit_step ^^ n) y"
  by (induction n) (simp_all add: step_linear)

lemma tab_loop_step: "tab_loop j crc c XOR push_bit j c = (ccitt_bit_step ^^ j) (crc XOR c)"
proof (induction j arbitrary: crc c)
  case 0
  then show ?case by simp
next
  case (Suc j)
  have "tab_loop (Suc j) crc c XOR push_bit (Suc j) c
      = tab_loop j (if (crc XOR c) AND 0x8000 \<noteq> 0 then push_bit 1 crc XOR 0x1021 else push_bit 1 crc) (push_bit 1 c)
        XOR push_bit j (push_bit 1 c)"
    by (simp add: push_bit_push_bit del: push_bit_Suc)
  also have "\<dots> = (ccitt_bit_step ^^ j) (ccitt_bit_step (crc XOR c))"
    unfolding Suc.IH
    by (simp add: bit15_mask ccitt_bit_step_def push_bit_xor xor.assoc xor.commute xor.left_commute)
  finally show ?case by (simp add: funpow_swap1)
qed


lemma tab_entry_steps: "tab_entry i = (ccitt_bit_step ^^ 8) (push_bit 8 i)"
proof -
  have "push_bit 8 (push_bit 8 i) = (0::u16)"
    by (simp add: bit_eq_iff bit_simps)
  with tab_loop_step [of 8 0 "push_bit 8 i"] show ?thesis
    by (simp add: tab_entry_def)
qed

lemma tab_lookup:
  assumes "unat k < 256"
  shows "init_crcccitt_tab_eth ! unat (k::u16) = tab_entry k"
  using assms by (simp add: init_crcccitt_tab_eth_def)

lemma unat_low_byte: "unat ((x::u16) AND 0x00FF) < 256"
proof -
  have "x AND 0x00FF \<le> 0x00FF" by (rule word_and_le1)
  then show ?thesis by (simp add: word_le_nat_alt)
qed

lemma steps_low: "j \<le> 8 \<Longrightarrow> (ccitt_bit_step ^^ j) (x AND 0x00FF) = push_bit j (x AND 0x00FF)"
proof (induction j)
  case 0
  then show ?case by simp
next
  case (Suc j)
  then have j: "j \<le> 7" by simp
  have m: "(0x00FF::u16) = mask 8" by (simp add: mask_eq_exp_minus_1)
  have "\<not> bit (push_bit j (x AND 0x00FF)) 15"
    using j unfolding m by (auto simp: bit_simps)
  then have "ccitt_bit_step (push_bit j (x AND 0x00FF)) = push_bit (Suc j) (x AND 0x00FF)"
    by (simp add: ccitt_bit_step_def push_bit_push_bit del: push_bit_Suc)
  with Suc show ?case by simp
qed

lemma split_register:
  "crc XOR push_bit 8 (ucast (c::u8)) =
     push_bit 8 ((drop_bit 8 crc XOR ucast c) AND 0x00FF) XOR ((crc::u16) AND 0x00FF)"
proof -
  have m: "(0x00FF::u16) = mask 8" by (simp add: mask_eq_exp_minus_1)
  show ?thesis unfolding m
    by (auto simp: bit_eq_iff bit_simps dest: bit_imp_le_length)
qed

lemma push_low: "push_bit 8 ((crc::u16) AND 0x00FF) = push_bit 8 crc"
proof -
  have m: "(0x00FF::u16) = mask 8" by (simp add: mask_eq_exp_minus_1)
  show ?thesis unfolding m
    by (auto simp: bit_eq_iff bit_simps)
qed

lemma update_is_byte_step: "update_crc_ccitt_eth crc c = ccitt_byte_step crc c"
proof -
  let ?k = "(drop_bit 8 crc XOR ucast c) AND 0x00FF"
  have "ccitt_byte_step crc c = (ccitt_bit_step ^^ 8) (push_bit 8 ?k XOR (crc AND 0x00FF))"
    unfolding ccitt_byte_step_def by (simp only: split_register)
  also have "\<dots> = tab_entry ?k XOR push_bit 8 (crc AND 0x00FF)"
    by (simp only: steps_linear tab_entry_steps steps_low [OF order_refl])
  also have "\<dots> = push_bit 8 crc XOR init_crcccitt_tab_eth ! unat ?k"
    by (simp only: push_low tab_lookup [OF unat_low_byte] xor.commute)
  finally show ?thesis by (simp add: update_crc_ccitt_eth_def)
qed

lemma crc_bytes_is_spec: "crc_bytes bs = crc_ccitt_spec bs"
proof -
  have "update_crc_ccitt_eth = ccitt_byte_step"
    by (intro ext) (rule update_is_byte_step)
  then show ?thesis by (simp add: crc_bytes_def crc_ccitt_spec_def)
qed



lemma funpow8: "(f ^^ 8) x = f (f (f (f (f (f (f (f x)))))))"
  by (simp add: eval_nat_numeral)

lemma byte0: "byte_of (ucast (a::u16) OR push_bit 16 (ucast (b::u16))) 0 = ucast a"
  unfolding byte_of_def by (rule bit_word_eqI) (auto simp: bit_simps dest: bit_imp_le_length)

lemma byte1: "byte_of (ucast (a::u16) OR push_bit 16 (ucast (b::u16))) 1 = ucast (drop_bit 8 a)"
  unfolding byte_of_def by (rule bit_word_eqI) (auto simp: bit_simps dest: bit_imp_le_length)

lemma byte2: "byte_of (ucast (a::u16) OR push_bit 16 (ucast (b::u16))) 2 = ucast b"
  unfolding byte_of_def by (rule bit_word_eqI) (auto simp: bit_simps dest: bit_imp_le_length)

lemma byte3: "byte_of (ucast (a::u16) OR push_bit 16 (ucast (b::u16))) 3 = ucast (drop_bit 8 b)"
  unfolding byte_of_def by (rule bit_word_eqI) (auto simp: bit_simps dest: bit_imp_le_length)

lemma swap_load:
  "swap_be_32 (ucast (a::u16) OR push_bit 16 (ucast (b::u16))) = be32 (word_bytes a @ word_bytes b)"
  unfolding swap_be_32_def byte0 byte1 byte2 byte3
  by (simp add: be32_def word_bytes_def)


lemma frame_prefix4:
  assumes "4 \<le> length frame"
  shows "take 4 (drop 4 (frame_bytes frame)) = word_bytes (frame ! 2) @ word_bytes (frame ! 3)"
proof -
  from assms obtain a b c d rest where "frame = a # b # c # d # rest"
    by (auto simp: eval_nat_numeral Suc_le_length_iff)
  then show ?thesis by (simp add: frame_bytes_def word_bytes_def)
qed

lemma be32_swap:
  "4 \<le> length frame \<Longrightarrow>
   swap_be_32 (load_u32 frame ETH_MCB_DATA_POS) = be32 (take 4 (drop 4 (frame_bytes frame)))"
  by (simp add: frame_prefix4 load_u32_def ETH_MCB_DATA_POS_def swap_load)


lemma length_bytes_words: "length (bytes_words bs) = length bs div 2"
  by (induction bs rule: bytes_words.induct) simp_all

lemma length_frame_bytes: "length (frame_bytes ws) = 2 * length ws"
  by (induction ws) (simp_all add: frame_bytes_def word_bytes_def)

lemmas crc_eval =
  crc_calc_eth_def frame_bytes_def word_bytes_def crc_bytes_is_spec crc_ccitt_spec_def
  ccitt_byte_step_def funpow8 ccitt_bit_step_def

lemma net_send_frame0:
  assumes "sz \<le> 8" "sz \<le> length data"
  shows "net_send node_dflt send_res subnode address data sz =
           Some ([push_bit 4 node_dflt OR ucast subnode,
                  push_bit 4 address OR push_bit 1 (if sz \<noteq> 0 then 2 else 1)]
                 @ bytes_words (take sz data @ replicate (8 - sz) 0)
                 @ [crc_calc_eth ([push_bit 4 node_dflt OR ucast subnode,
                      push_bit 4 address OR push_bit 1 (if sz \<noteq> 0 then 2 else 1)]
                      @ bytes_words (take sz data @ replicate (8 - sz) 0)) 6],
                 send_res)"
proof (cases "sz = 0")
  case True
  then show ?thesis
    by (simp add: net_send_def Let_def ETH_MCB_CMD_READ_def ETH_MCB_CRC_POS_def)
next
  case False
  with assms show ?thesis
    by (simp add: net_send_def Let_def memcpy_def ETH_MCB_CMD_WRITE_def ETH_MCB_CRC_POS_def)
qed


lemma replicate8: "replicate 8 x = [x,x,x,x,x,x,x,x]"
  by (simp add: eval_nat_numeral)


lemma read3_send: "net_send 0 None 0 3 [] 0 = Some ([0, 0x32] @ bytes_words (replicate 8 0) @ [crc_calc_eth ([0, 0x32] @ bytes_words (replicate 8 0)) 6], None)"
  using net_send_frame0 [of 0 "[]" 0 None 0 3] by simp

lemma zero_words: "bytes_words (replicate 8 0) = [0,0,0,0]"
  by (simp add: replicate8 le16_def)

lemma read3_crc: "crc_calc_eth [0, 0x32, 0, 0, 0, 0] 6 = 0x7311"
  by (simp add: crc_eval)






section \<open>The claims about the TCP frame\<close>

text \<open>
  C2, as amended. The CRC of the source (table driven) is CRC-CCITT as the
  specification words it: polynomial 0x1021, initial value 0x0000, most significant bit
  first, no final XOR; \<open>crc_calc_eth\<close> with size 6 computes it over the first 12 bytes
  of the frame. For the 12 bytes 00 00 00 30 00 00 00 00 00 00 00 00 the CRC is 0xF402,
  not 0xD1EF. Whenever \<open>net_send\<close> emits a frame, the frame has seven words and the
  seventh is that CRC of its first 12 bytes.
\<close>

theorem crc_calc_eth_ccitt:
  "crc_bytes bs = crc_ccitt_spec bs
   \<and> crc_calc_eth frame 6 = crc_ccitt_spec (take 12 (frame_bytes frame))
   \<and> crc_bytes [0x00,0x00, 0x00,0x30, 0x00,0x00,0x00,0x00, 0x00,0x00,0x00,0x00] = 0xF402
   \<and> (\<forall>fr r. net_send node_dflt send_res subnode address data sz = Some (fr, r) \<longrightarrow>
         length fr = 7 \<and> fr ! 6 = crc_ccitt_spec (take 12 (frame_bytes fr)))"
proof (intro conjI allI impI)
  show "crc_bytes bs = crc_ccitt_spec bs" by (rule crc_bytes_is_spec)
  show "crc_calc_eth frame 6 = crc_ccitt_spec (take 12 (frame_bytes frame))"
    by (simp add: crc_calc_eth_def crc_bytes_is_spec)
  show "crc_bytes [0x00,0x00, 0x00,0x30, 0x00,0x00,0x00,0x00, 0x00,0x00,0x00,0x00] = 0xF402"
    by (simp add: crc_bytes_is_spec crc_ccitt_spec_def ccitt_byte_step_def funpow8
        ccitt_bit_step_def)
next
  fix fr r
  assume s: "net_send node_dflt send_res subnode address data sz = Some (fr, r)"
  then have b: "sz \<le> 8" "sz \<le> length data"
    by (auto simp: net_send_def split: if_splits)
  let ?d = "take sz data @ replicate (8 - sz) (0::u8)"
  have ld: "length ?d = 8" using b by simp
  have lw: "length (bytes_words ?d) = 4"
    by (simp only: length_bytes_words ld)
  from s net_send_frame0 [OF b, of node_dflt send_res subnode address]
  obtain f0 where fr: "fr = f0 @ [crc_calc_eth f0 6]" and l0: "length f0 = 6"
    using lw by auto
  show "length fr = 7" by (simp add: fr l0)
  have "take 12 (frame_bytes fr) = take 12 (frame_bytes f0)"
    by (simp add: fr frame_bytes_def length_frame_bytes [unfolded frame_bytes_def] l0)
  then show "fr ! 6 = crc_ccitt_spec (take 12 (frame_bytes fr))"
    by (simp add: fr l0 nth_append crc_calc_eth_def crc_bytes_is_spec)
qed

theorem crc_calc_eth_ccitt_witness:
  "net_send 0 None 0 3 [] 0 = Some ([0, 0x32, 0, 0, 0, 0, 0x7311], None)
   \<and> length [0, 0x32, 0, 0, 0, 0, 0x7311 :: u16] = 7
   \<and> [0, 0x32, 0, 0, 0, 0, 0x7311 :: u16] ! 6
       = crc_ccitt_spec (take 12 (frame_bytes [0, 0x32, 0, 0, 0, 0, 0x7311]))"
proof -
  have snd: "net_send 0 None 0 3 [] 0 = Some ([0, 0x32, 0, 0, 0, 0, 0x7311], None)"
    by (simp add: read3_send zero_words read3_crc)
  have "\<forall>fr r. net_send 0 None 0 3 [] 0 = Some (fr, r) \<longrightarrow>
         length fr = 7 \<and> fr ! 6 = crc_ccitt_spec (take 12 (frame_bytes fr))"
    using crc_calc_eth_ccitt [of "[]" "[]" 0 None 0 3 "[]" 0] by (elim conjE)
  with snd show ?thesis by blast
qed


text \<open>
  The value the claim gives for the sample bytes is neither what the source computes nor
  what the specification's own polynomial and seed give.
\<close>

theorem crc_sample_not_D1EF:
  "crc_bytes [0x00,0x00, 0x00,0x30, 0x00,0x00,0x00,0x00, 0x00,0x00,0x00,0x00] \<noteq> 0xD1EF
   \<and> crc_ccitt_spec [0x00,0x00, 0x00,0x30, 0x00,0x00,0x00,0x00, 0x00,0x00,0x00,0x00] \<noteq> 0xD1EF"
  by (simp add: crc_bytes_is_spec crc_ccitt_spec_def ccitt_byte_step_def funpow8
        ccitt_bit_step_def)





text \<open>
  C1. For every seven-word frame received, \<open>net_recv\<close> succeeds exactly when the CRC
  recomputed over the first six words equals word 6 and the command field of HDR_L is
  ACK. On a CRC mismatch it returns \<open>IL_EIO\<close> with the CRC message; on a frame with
  a valid CRC whose command is not ACK it returns \<open>IL_EIO\<close> with the NACK message,
  whose code is the first four payload bytes read as a big-endian 32-bit value. So a
  frame with a CRC mismatch never comes back as success.
\<close>

theorem net_recv_result:
  assumes "length frame = 7"
  shows "((\<exists>b. net_recv frame buf sz = Inr b) \<longleftrightarrow>
            (crc_calc_eth frame 6 = frame ! 6 \<and>
             drop_bit ETH_MCB_CMD_POS (frame ! ETH_MCB_HDR_L_POS AND ETH_MCB_CMD_MSK) = ETH_MCB_CMD_ACK))
     \<and> (crc_calc_eth frame 6 \<noteq> frame ! 6 \<longrightarrow>
            net_recv frame buf sz = Inl (IL_EIO, Msg_crc_mismatch))
     \<and> (crc_calc_eth frame 6 = frame ! 6 \<and>
          drop_bit ETH_MCB_CMD_POS (frame ! ETH_MCB_HDR_L_POS AND ETH_MCB_CMD_MSK) \<noteq> ETH_MCB_CMD_ACK \<longrightarrow>
            net_recv frame buf sz =
              Inl (IL_EIO, Msg_nack (be32 (take 4 (drop (2 * ETH_MCB_DATA_POS) (frame_bytes frame))))))"
proof -
  have "4 \<le> length frame" using assms by simp
  from be32_swap [OF this] have "swap_be_32 (load_u32 frame ETH_MCB_DATA_POS)
           = be32 (take 4 (drop (2 * ETH_MCB_DATA_POS) (frame_bytes frame)))"
    by (simp add: ETH_MCB_DATA_POS_def)
  then show ?thesis
    by (auto simp: net_recv_def Let_def)
qed

theorem net_recv_result_witness:
  "length [0x00A1, 0x0116, 0x1234, 0, 0, 0, 0xD557 :: u16] = 7
   \<and> (\<exists>b. net_recv [0x00A1, 0x0116, 0x1234, 0, 0, 0, 0xD557] [0, 0] 2 = Inr b)
   \<and> crc_calc_eth [0x00A1, 0x0116, 0x1234, 0, 0, 0, 0] 6 \<noteq> [0x00A1, 0x0116, 0x1234, 0, 0, 0, 0] ! 6
   \<and> net_recv [0x00A1, 0x0116, 0x1234, 0, 0, 0, 0] [0, 0] 2 = Inl (IL_EIO, Msg_crc_mismatch)
   \<and> crc_calc_eth [0x00A1, 0x011A, 0xADDE, 0xEFBE, 0, 0, 0x8E0B] 6
       = [0x00A1, 0x011A, 0xADDE, 0xEFBE, 0, 0, 0x8E0B] ! 6
   \<and> net_recv [0x00A1, 0x011A, 0xADDE, 0xEFBE, 0, 0, 0x8E0B] [] 0
       = Inl (IL_EIO, Msg_nack 0xDEADBEEF)"
proof -
  let ?A = "[0x00A1, 0x0116, 0x1234, 0, 0, 0, 0xD557] :: u16 list"
  let ?B = "[0x00A1, 0x0116, 0x1234, 0, 0, 0, 0] :: u16 list"
  let ?N = "[0x00A1, 0x011A, 0xADDE, 0xEFBE, 0, 0, 0x8E0B] :: u16 list"
  note ev = crc_calc_eth_def frame_bytes_def word_bytes_def crc_bytes_is_spec
        crc_ccitt_spec_def ccitt_byte_step_def funpow8 ccitt_bit_step_def
  have cA: "crc_calc_eth ?A 6 = 0xD557" by (simp add: ev)
  have cB: "crc_calc_eth ?B 6 = 0xD557" by (simp add: ev)
  have cN: "crc_calc_eth ?N 6 = 0x8E0B" by (simp add: ev)
  have kA: "drop_bit ETH_MCB_CMD_POS (?A ! ETH_MCB_HDR_L_POS AND ETH_MCB_CMD_MSK) = ETH_MCB_CMD_ACK"
    by (simp add: ETH_MCB_CMD_POS_def ETH_MCB_HDR_L_POS_def ETH_MCB_CMD_MSK_def ETH_MCB_CMD_ACK_def)
  have kN: "drop_bit ETH_MCB_CMD_POS (?N ! ETH_MCB_HDR_L_POS AND ETH_MCB_CMD_MSK) \<noteq> ETH_MCB_CMD_ACK"
    by (simp add: ETH_MCB_CMD_POS_def ETH_MCB_HDR_L_POS_def ETH_MCB_CMD_MSK_def ETH_MCB_CMD_ACK_def)
  have bN: "be32 (take 4 (drop (2 * ETH_MCB_DATA_POS) (frame_bytes ?N))) = 0xDEADBEEF"
    by (simp add: ETH_MCB_DATA_POS_def frame_bytes_def word_bytes_def be32_def)
  have lA: "length ?A = 7" and lB: "length ?B = 7" and lN: "length ?N = 7" by simp_all
  have 1: "\<exists>b. net_recv ?A [0, 0] 2 = Inr b"
    using net_recv_result [OF lA, of "[0, 0]" 2] cA kA by simp
  have nB: "crc_calc_eth ?B 6 \<noteq> ?B ! 6" by (simp add: cB)
  have 2: "net_recv ?B [0, 0] 2 = Inl (IL_EIO, Msg_crc_mismatch)"
    using net_recv_result [OF lB, of "[0, 0]" 2] nB by blast
  have eN: "crc_calc_eth ?N 6 = ?N ! 6" by (simp add: cN)
  have 3: "net_recv ?N [] 0 = Inl (IL_EIO, Msg_nack 0xDEADBEEF)"
    using net_recv_result [OF lN, of "[]" 0] eN kN unfolding bN by blast
  from lA 1 nB 2 eN 3 show ?thesis by blast
qed

section \<open>The claim about register labels\<close>

text \<open>
  C9, as amended. If the language is present, \<open>il_reg_labels_get\<close> succeeds with the
  stored string; if it is absent, it fails with the generic failure code \<open>IL_EFAIL\<close>
  (the kind of any unspecific failure) and leaves the message that names the language.
\<close>

theorem il_reg_labels_get_result:
  "(labels lang = Some label \<longrightarrow> il_reg_labels_get labels lang = Inr label)
   \<and> (labels lang = None \<longrightarrow>
        il_reg_labels_get labels lang = Inl (IL_EFAIL, Msg_lang_not_available lang))
   \<and> kind_of IL_EFAIL = ErrFail"
  by (simp add: il_reg_labels_get_def)

theorem il_reg_labels_get_result_witness:
  "il_reg_labels_set il_reg_labels_create ''en'' ''Speed'' ''en'' = Some ''Speed''
   \<and> il_reg_labels_get (il_reg_labels_set il_reg_labels_create ''en'' ''Speed'') ''en'' = Inr ''Speed''
   \<and> il_reg_labels_set il_reg_labels_create ''en'' ''Speed'' ''fr'' = None
   \<and> il_reg_labels_get (il_reg_labels_set il_reg_labels_create ''en'' ''Speed'') ''fr''
       = Inl (IL_EFAIL, Msg_lang_not_available ''fr'')"
proof -
  let ?L = "il_reg_labels_set il_reg_labels_create ''en'' ''Speed''"
  have p: "?L ''en'' = Some ''Speed''" and a: "?L ''fr'' = None"
    by (simp_all add: il_reg_labels_set_def il_reg_labels_create_def)
  from il_reg_labels_get_result [of ?L "''en''" "''Speed''"] p
  have 1: "il_reg_labels_get ?L ''en'' = Inr ''Speed''" by blast
  from il_reg_labels_get_result [of ?L "''fr''" "''Speed''"] a
  have 2: "il_reg_labels_get ?L ''fr'' = Inl (IL_EFAIL, Msg_lang_not_available ''fr'')" by blast
  from p 1 a 2 show ?thesis by blast
qed

text \<open>
  The lookup of an absent language does not fail with the kind \<open>ErrUnknownLang\<close>.
\<close>

theorem il_reg_labels_get_not_unknown_lang:
  "il_reg_labels_set il_reg_labels_create ''en'' ''Speed'' ''fr'' = None
   \<and> \<not> (\<exists>e m. il_reg_labels_get (il_reg_labels_set il_reg_labels_create ''en'' ''Speed'') ''fr''
                 = Inl (e, m) \<and> kind_of e = ErrUnknownLang)"
  by (simp add: il_reg_labels_get_def il_reg_labels_set_def il_reg_labels_create_def)

section \<open>The claims about the synchronous slot of the serial profile\<close>

lemma process_sync_complete: "sync_complete s \<Longrightarrow> process_sync s f = s"
  by (simp add: process_sync_def)

lemma process_sync_complete_all: "sync_complete s \<Longrightarrow> foldl process_sync s fs = s"
  by (induction fs) (simp_all add: process_sync_complete)





text \<open>
  C10. On every return path of \<open>il_net__read\<close> past the state check (success, send
  failure, timeout, wait failure) the slot is complete when the call returns, setting
  the flag is the caller's last action before it unlocks \<^verbatim>\<open>sync.lock\<close> for the last
  time, and no sequence of frames handed to \<open>process_sync\<close> afterwards changes the
  slot, hence the buffer of that call.
\<close>

theorem il_net__read_completes:
  assumes "net_state net = IL_NET_STATE_OPERATIVE"
  shows "sync_complete (net_sync (fst (snd (il_net__read env net id' idx sidx buf sz recvd timeout))))
     \<and> (\<exists>pre. snd (snd (il_net__read env net id' idx sidx buf sz recvd timeout))
                = pre @ [Set_complete True, Unlock_sync])
     \<and> foldl process_sync
          (net_sync (fst (snd (il_net__read env net id' idx sidx buf sz recvd timeout)))) later
        = net_sync (fst (snd (il_net__read env net id' idx sidx buf sz recvd timeout)))
     \<and> fst (il_net__read env net id' idx sidx buf sz recvd timeout)
          \<in> {None, Some (SER_ERR (ser_write_res env)), Some IL_ETIMEDOUT, Some IL_EFAIL}"
proof -
  let ?res = "il_net__read env net id' idx sidx buf sz recvd timeout"
  have c: "sync_complete (net_sync (fst (snd ?res)))"
    using assms by (simp add: il_net__read_def Let_def)
  have e: "\<exists>pre. snd (snd ?res) = pre @ [Set_complete True, Unlock_sync]"
    using assms by (simp add: il_net__read_def Let_def)
  have r: "fst ?res \<in> {None, Some (SER_ERR (ser_write_res env)), Some IL_ETIMEDOUT, Some IL_EFAIL}"
    using assms by (simp add: il_net__read_def Let_def split: osal_wait.split)
  from c have "foldl process_sync (net_sync (fst (snd ?res))) later = net_sync (fst (snd ?res))"
    by (rule process_sync_complete_all)
  with c e r show ?thesis by blast
qed

theorem il_net__read_completes_witness:
  "net_state \<lparr>net_state = IL_NET_STATE_OPERATIVE,
       net_sync = \<lparr>sync_id = 0, sync_idx = 0, sync_sidx = 0, sync_buf = [], sync_sz = 0,
                   sync_recvd = None, sync_complete = True, sync_signals = 0\<rparr>\<rparr>
     = IL_NET_STATE_OPERATIVE
   \<and> fst (il_net__read
        \<lparr>ser_write_res = 0, frames_before_wait = [], frames_during_wait = [],
         cond_wait_res = OSAL_ETIMEDOUT\<rparr>
        \<lparr>net_state = IL_NET_STATE_OPERATIVE,
         net_sync = \<lparr>sync_id = 0, sync_idx = 0, sync_sidx = 0, sync_buf = [], sync_sz = 0,
                     sync_recvd = None, sync_complete = True, sync_signals = 0\<rparr>\<rparr>
        5 0x2000 1 [0, 0] 2 None 100) = Some IL_ETIMEDOUT
   \<and> sync_buf (foldl process_sync
        (net_sync (fst (snd (il_net__read
          \<lparr>ser_write_res = 0, frames_before_wait = [], frames_during_wait = [],
           cond_wait_res = OSAL_ETIMEDOUT\<rparr>
          \<lparr>net_state = IL_NET_STATE_OPERATIVE,
           net_sync = \<lparr>sync_id = 0, sync_idx = 0, sync_sidx = 0, sync_buf = [], sync_sz = 0,
                       sync_recvd = None, sync_complete = True, sync_signals = 0\<rparr>\<rparr>
          5 0x2000 1 [0, 0] 2 None 100))))
        [\<lparr>il_frame__get_id = 5, il_frame__get_idx = 0x2000, il_frame__get_sidx = 1,
          il_frame__get_sz = 2, il_frame__get_data = [0xAA, 0xBB, 0x12, 0x34]\<rparr>])
     = [0, 0]"
proof -
  let ?env = "\<lparr>ser_write_res = 0, frames_before_wait = [], frames_during_wait = [],
         cond_wait_res = OSAL_ETIMEDOUT\<rparr>"
  let ?net = "\<lparr>net_state = IL_NET_STATE_OPERATIVE,
         net_sync = \<lparr>sync_id = 0, sync_idx = 0, sync_sidx = 0, sync_buf = [], sync_sz = 0,
                     sync_recvd = None, sync_complete = True, sync_signals = 0\<rparr>\<rparr>"
  let ?f = "\<lparr>il_frame__get_id = 5, il_frame__get_idx = 0x2000, il_frame__get_sidx = 1,
          il_frame__get_sz = 2, il_frame__get_data = [0xAA, 0xBB, 0x12, 0x34]\<rparr>"
  have op: "net_state ?net = IL_NET_STATE_OPERATIVE" by simp
  have r: "fst (il_net__read ?env ?net 5 0x2000 1 [0, 0] 2 None 100) = Some IL_ETIMEDOUT"
    by (simp add: il_net__read_def Let_def)
  have b: "sync_buf (net_sync (fst (snd (il_net__read ?env ?net 5 0x2000 1 [0, 0] 2 None 100))))
            = [0, 0]"
    by (simp add: il_net__read_def Let_def)
  from il_net__read_completes [OF op, of ?env 5 "0x2000" 1 "[0, 0]" 2 None 100 "[?f]"]
  have "foldl process_sync
          (net_sync (fst (snd (il_net__read ?env ?net 5 0x2000 1 [0, 0] 2 None 100)))) [?f]
        = net_sync (fst (snd (il_net__read ?env ?net 5 0x2000 1 [0, 0] 2 None 100)))"
    by blast
  with b have "sync_buf (foldl process_sync
          (net_sync (fst (snd (il_net__read ?env ?net 5 0x2000 1 [0, 0] 2 None 100)))) [?f])
        = [0, 0]"
    by (simp only:)
  with op r show ?thesis by blast
qed

section \<open>The claim about the subscriber registry\<close>

lemma subscribe_all_append:
  "subscribe_all esz sw (xs @ ys) =
     (case subscribe_all esz sw xs of None \<Rightarrow> None | Some sw' \<Rightarrow> subscribe_all esz sw' ys)"
  by (induction xs arbitrary: sw) (auto split: option.splits)

lemma subscribe_room:
  assumes "subs_cnt sw < subs_sz sw" and "subs_cnt sw < subs_alloc sw"
  shows "il_net__sw_subscribe esz ok sw i cb ctx =
           Some (None, sw\<lparr>subs := (subs sw)(subs_cnt sw := \<lparr>sub_id = i, sub_cb = cb, sub_ctx = ctx\<rparr>),
                           subs_cnt := subs_cnt sw + 1\<rparr>)"
  using assms by (simp add: il_net__sw_subscribe_def)

lemma subscribe_grow:
  assumes "subs_cnt sw = subs_sz sw" and "0 < esz" and "0 < subs_sz sw"
  shows "il_net__sw_subscribe esz True sw i cb ctx =
           Some (None, sw\<lparr>subs_alloc := 2 * subs_sz sw, subs_sz := 2 * subs_sz sw * esz,
                           subs := (subs sw)(subs_cnt sw := \<lparr>sub_id = i, sub_cb = cb, sub_ctx = ctx\<rparr>),
                           subs_cnt := subs_cnt sw + 1\<rparr>)"
  using assms by (simp add: il_net__sw_subscribe_def Let_def)

lemma subscribe_overflow:
  assumes "subs_cnt sw \<noteq> subs_sz sw" and "subs_alloc sw \<le> subs_cnt sw"
  shows "il_net__sw_subscribe esz ok sw i cb ctx = None"
  using assms by (simp add: il_net__sw_subscribe_def)

lemma subscribe_nomem:
  assumes "subs_cnt sw = subs_sz sw"
  shows "il_net__sw_subscribe esz False sw i cb ctx = Some (Some IL_ENOMEM, sw)"
  using assms by (simp add: il_net__sw_subscribe_def)

lemma subscribe_all_fill:
  assumes "subs_cnt sw + length xs \<le> subs_alloc sw" and "subs_cnt sw + length xs \<le> subs_sz sw"
  shows "\<exists>sw'. subscribe_all esz sw xs = Some sw' \<and> subs_cnt sw' = subs_cnt sw + length xs
            \<and> subs_sz sw' = subs_sz sw \<and> subs_alloc sw' = subs_alloc sw"
  using assms
proof (induction xs arbitrary: sw)
  case Nil
  then show ?case by simp
next
  case (Cons x xs)
  let ?sw1 = "sw\<lparr>subs := (subs sw)(subs_cnt sw :=
                 \<lparr>sub_id = sub_id x, sub_cb = sub_cb x, sub_ctx = sub_ctx x\<rparr>),
               subs_cnt := subs_cnt sw + 1\<rparr>"
  from Cons.prems have "subs_cnt sw < subs_sz sw" "subs_cnt sw < subs_alloc sw" by simp_all
  then have step: "il_net__sw_subscribe esz True sw (sub_id x) (sub_cb x) (sub_ctx x) = Some (None, ?sw1)"
    by (rule subscribe_room)
  from Cons.prems have "subs_cnt ?sw1 + length xs \<le> subs_alloc ?sw1"
    "subs_cnt ?sw1 + length xs \<le> subs_sz ?sw1" by simp_all
  from Cons.IH [OF this] step show ?case by simp
qed

lemma subscribe_past_default:
  assumes d: "0 < d" and e: "1 < esz" and lx: "length xs = d"
  shows "\<exists>sw. subscribe_all esz (sw_subs_create d g) (xs @ [x]) = Some sw
           \<and> subs_cnt sw = d + 1 \<and> subs_sz sw = 2 * d * esz \<and> subs_alloc sw = 2 * d"
proof -
  let ?c = "sw_subs_create d g"
  have "subs_cnt ?c + length xs \<le> subs_alloc ?c" "subs_cnt ?c + length xs \<le> subs_sz ?c"
    using lx by (simp_all add: sw_subs_create_def)
  from subscribe_all_fill [OF this, of esz] obtain sw1 where
    f: "subscribe_all esz ?c xs = Some sw1" and c1: "subs_cnt sw1 = d" and s1: "subs_sz sw1 = d"
    and a1: "subs_alloc sw1 = d"
    using lx by (auto simp: sw_subs_create_def)
  have "subs_cnt sw1 = subs_sz sw1" "0 < esz" "0 < subs_sz sw1" using c1 s1 d e by simp_all
  from subscribe_grow [OF this, of "sub_id x" "sub_cb x" "sub_ctx x"] f c1 s1
  show ?thesis by (simp add: subscribe_all_append)
qed

lemma subscribe_overruns_block:
  assumes d: "0 < d" and e: "1 < esz" and lx: "length xs = d" and ly: "length ys = d - 1"
  shows "subscribe_all esz (sw_subs_create d g) ((xs @ [x]) @ ys @ [y]) = None"
proof -
  from subscribe_past_default [OF d e lx, of g x] obtain sw2 where
    f2: "subscribe_all esz (sw_subs_create d g) (xs @ [x]) = Some sw2"
    and c2: "subs_cnt sw2 = d + 1" and s2: "subs_sz sw2 = 2 * d * esz" and a2: "subs_alloc sw2 = 2 * d"
    by blast
  have le: "2 * d \<le> 2 * d * esz" using e by simp
  have cl: "subs_cnt sw2 + length ys = 2 * d" using c2 ly d by simp
  have "subs_cnt sw2 + length ys \<le> subs_alloc sw2" "subs_cnt sw2 + length ys \<le> subs_sz sw2"
    unfolding cl a2 s2 using le by simp_all
  from subscribe_all_fill [OF this, of esz] obtain sw3 where
    f3: "subscribe_all esz sw2 ys = Some sw3" and c3: "subs_cnt sw3 = 2 * d"
    and s3: "subs_sz sw3 = 2 * d * esz" and a3: "subs_alloc sw3 = 2 * d"
    using cl s2 a2 by auto
  have "2 * d < 2 * d * esz" using d e by simp
  then have "subs_cnt sw3 \<noteq> subs_sz sw3" "subs_alloc sw3 \<le> subs_cnt sw3"
    using c3 s3 a3 by simp_all
  from subscribe_overflow [OF this] have "subscribe_all esz sw3 [y] = None" by simp
  with f2 f3 show ?thesis by (simp only: subscribe_all_append option.case)
qed

text \<open>
  C5. The claim: when the count has reached the capacity, \<open>il_net__sw_subscribe\<close>
  doubles the capacity (the number of storable entries) before appending. The source
  stores the new size in bytes as the capacity. With a default of 10 entries of 24 bytes:
  the eleventh subscription leaves a block of 20 entries and a capacity field of 480, and
  the twenty-first subscription, with the block full, does not grow it and writes past
  its end. A failed reallocation returns \<open>IL_ENOMEM\<close> and leaves the registry as it
  was, as the claim says.
\<close>

theorem sw_subscribe_capacity_in_bytes:
  "(\<exists>sw. subscribe_all 24 (sw_subs_create 10 g) (replicate 10 x @ [x]) = Some sw
       \<and> subs_cnt sw = 11 \<and> subs_sz sw = 480 \<and> subs_alloc sw = 20)
   \<and> subscribe_all 24 (sw_subs_create 10 g) ((replicate 10 x @ [x]) @ replicate 9 x @ [x]) = None
   \<and> il_net__sw_subscribe 24 False
        \<lparr>subs = g, subs_alloc = 10, subs_cnt = 10, subs_sz = 10\<rparr> 1 cb ctx
       = Some (Some IL_ENOMEM, \<lparr>subs = g, subs_alloc = 10, subs_cnt = 10, subs_sz = 10\<rparr>)"
proof (intro conjI)
  show "\<exists>sw. subscribe_all 24 (sw_subs_create 10 g) (replicate 10 x @ [x]) = Some sw
       \<and> subs_cnt sw = 11 \<and> subs_sz sw = 480 \<and> subs_alloc sw = 20"
    using subscribe_past_default [of 10 24 "replicate 10 x" g x] by simp
  show "subscribe_all 24 (sw_subs_create 10 g) ((replicate 10 x @ [x]) @ replicate 9 x @ [x]) = None"
    using subscribe_overruns_block [of 10 24 "replicate 10 x" "replicate 9 x" g x x] by simp
  show "il_net__sw_subscribe 24 False
        \<lparr>subs = g, subs_alloc = 10, subs_cnt = 10, subs_sz = 10\<rparr> 1 cb ctx
       = Some (Some IL_ENOMEM, \<lparr>subs = g, subs_alloc = 10, subs_cnt = 10, subs_sz = 10\<rparr>)"
    by (simp add: subscribe_nomem)
qed

section \<open>The claims about the statusword dispatch\<close>

lemma sw_notify_all_filter:
  "sw_notify_all i sw xs = map (\<lambda>x. (sub_cb x, sub_ctx x, sw)) (filter (\<lambda>x. sub_id x = i) xs)"
  by (induction xs) simp_all

lemma process_statusword_reaches_all:
  "process_statusword widx wsidx reg
     \<lparr>il_frame__get_id = i, il_frame__get_idx = widx, il_frame__get_sidx = wsidx,
      il_frame__get_sz = 2, il_frame__get_data = lo # hi # rest\<rparr>
   = map (\<lambda>x. (sub_cb x, sub_ctx x, le16 lo hi))
       (filter (\<lambda>x. sub_id x = i) (map (subs reg) [0..<subs_cnt reg]))"
  by (simp add: process_statusword_def Let_def sw_notify_all_filter swap_16_at_def)

lemma sw_notify_first_short: "length (sw_notify_first i sw xs) \<le> 1"
  by (induction xs) simp_all

text \<open>
  C4. The claim: every subscriber whose id matches is called with the 16-bit statusword.
  With two subscribers for id 1, the serial \<open>process_statusword\<close> calls both with
  the value 0x0237 of the frame; the TCP \<open>process_statusword_eth\<close> calls the first
  only, and with the low 16 bits of the address of the listener's buffer (0xA2B4 for a
  buffer at 0x7FFC10A2B4), not with a statusword.
\<close>

theorem process_statusword_eth_first_only:
  "process_statusword_eth
     \<lparr>subs = (\<lambda>i. if i = 0 then \<lparr>sub_id = 1, sub_cb = 100, sub_ctx = 7\<rparr>
                  else \<lparr>sub_id = 1, sub_cb = 200, sub_ctx = 8\<rparr>),
      subs_alloc = 2, subs_cnt = 2, subs_sz = 2\<rparr> 1 0x7FFC10A2B4
   = [(100, 7, 0xA2B4)]
   \<and> process_statusword widx wsidx
     \<lparr>subs = (\<lambda>i. if i = 0 then \<lparr>sub_id = 1, sub_cb = 100, sub_ctx = 7\<rparr>
                  else \<lparr>sub_id = 1, sub_cb = 200, sub_ctx = 8\<rparr>),
      subs_alloc = 2, subs_cnt = 2, subs_sz = 2\<rparr>
     \<lparr>il_frame__get_id = 1, il_frame__get_idx = widx, il_frame__get_sidx = wsidx,
      il_frame__get_sz = 2, il_frame__get_data = [0x37, 0x02]\<rparr>
   = [(100, 7, 0x0237), (200, 8, 0x0237)]"
proof -
  have u: "[0..<2] = [0, Suc 0]" by (simp add: upt_rec)
  show ?thesis
    by (simp add: process_statusword_eth_def process_statusword_reaches_all u le16_def)
qed

lemma net_send_poll:
  "\<exists>frame. net_send nd r 1 0x0011 [] 0 = Some (frame, r)"
  using net_send_frame0 [of 0 "[]" nd r 1 "0x0011"] by simp

lemma net_recv_buf_irrelevant:
  "(\<exists>b. net_recv frame buf sz = Inr b) = (\<exists>b. net_recv frame buf' sz' = Inr b)"
  by (simp add: net_recv_def Let_def)

lemma poll_body_send_failed:
  assumes "e_send e (polls s) = Some err"
  shows "poll_body e s =
     s\<lparr>error_count := error_count s + 1,
       calls := calls s @ process_statusword_eth (e_subs e (polls s)) 1 (e_buf_addr e),
       polls := polls s + 1\<rparr>"
proof -
  obtain frame where "net_send (e_node_dflt e) (e_send e (polls s)) 1 0x0011 [] 0
      = Some (frame, e_send e (polls s))"
    using net_send_poll by blast
  with assms show ?thesis by (simp add: poll_body_def Let_def)
qed

lemma poll_body_recv_failed:
  assumes "e_send e (polls s) = None"
    and "net_recv (e_recv e (polls s)) (word_bytes (l_buf s)) 2 = Inl x"
  shows "poll_body e s =
     s\<lparr>error_count := error_count s + 1,
       calls := calls s @ process_statusword_eth (e_subs e (polls s)) 1 (e_buf_addr e),
       polls := polls s + 1\<rparr>"
proof -
  obtain frame where "net_send (e_node_dflt e) (e_send e (polls s)) 1 0x0011 [] 0
      = Some (frame, e_send e (polls s))"
    using net_send_poll by blast
  with assms show ?thesis by (simp add: poll_body_def Let_def)
qed

lemma poll_body_success:
  assumes "e_send e (polls s) = None"
    and "net_recv (e_recv e (polls s)) (word_bytes (l_buf s)) 2 = Inr b"
  shows "poll_body e s =
     s\<lparr>error_count := 0, l_buf := le16 (b ! 0) (b ! 1),
       calls := calls s @ process_statusword_eth (e_subs e (polls s)) 1 (e_buf_addr e),
       polls := polls s + 1\<rparr>"
proof -
  obtain frame where "net_send (e_node_dflt e) (e_send e (polls s)) 1 0x0011 [] 0
      = Some (frame, e_send e (polls s))"
    using net_send_poll by blast
  with assms show ?thesis by (simp add: poll_body_def Let_def)
qed

lemma poll_body_error_count:
  "error_count (poll_body e s) = (if poll_ok e (polls s) then 0 else error_count s + 1)"
proof (cases "e_send e (polls s)")
  case (Some err)
  then show ?thesis by (simp add: poll_body_send_failed poll_ok_def)
next
  case None
  show ?thesis
  proof (cases "net_recv (e_recv e (polls s)) (word_bytes (l_buf s)) 2")
    case (Inl x)
    then have "\<not> (\<exists>b. net_recv (e_recv e (polls s)) (word_bytes (l_buf s)) 2 = Inr b)" by simp
    then have "\<not> poll_ok e (polls s)"
      unfolding poll_ok_def using net_recv_buf_irrelevant by blast
    with None Inl show ?thesis by (simp add: poll_body_recv_failed)
  next
    case (Inr b)
    then have "\<exists>b. net_recv (e_recv e (polls s)) (word_bytes (l_buf s)) 2 = Inr b" by simp
    then have "poll_ok e (polls s)"
      unfolding poll_ok_def using None net_recv_buf_irrelevant by blast
    with None Inr show ?thesis by (simp add: poll_body_success)
  qed
qed

lemma poll_body_counters:
  "polls (poll_body e s) = polls s + 1 \<and> connects (poll_body e s) = connects s
   \<and> flag_reads (poll_body e s) = flag_reads s \<and> reconnects (poll_body e s) = reconnects s
   \<and> l_stop (poll_body e s) = l_stop s"
proof (cases "e_send e (polls s)")
  case (Some err)
  then show ?thesis by (simp add: poll_body_send_failed)
next
  case None
  then show ?thesis
    by (cases "net_recv (e_recv e (polls s)) (word_bytes (l_buf s)) 2")
       (simp_all add: poll_body_recv_failed poll_body_success)
qed

lemma poll_body_calls:
  "calls (poll_body e s) = calls s @ process_statusword_eth (e_subs e (polls s)) 1 (e_buf_addr e)"
proof (cases "e_send e (polls s)")
  case (Some err)
  then show ?thesis by (simp add: poll_body_send_failed)
next
  case None
  then show ?thesis
    by (cases "net_recv (e_recv e (polls s)) (word_bytes (l_buf s)) 2")
       (simp_all add: poll_body_recv_failed poll_body_success)
qed

lemma ack_frame_crc: "crc_calc_eth [0x00A1, 0x0116, 0x1234, 0, 0, 0, 0xD557] 6 = 0xD557"
  by (simp add: crc_eval)

lemma ack_frame_recv:
  "net_recv [0x00A1, 0x0116, 0x1234, 0, 0, 0, 0xD557] [lo, hi] 2 = Inr [0x34, 0x12]"
  by (simp add: net_recv_def Let_def ack_frame_crc ETH_MCB_HDR_L_POS_def ETH_MCB_CMD_POS_def
      ETH_MCB_CMD_MSK_def ETH_MCB_CMD_ACK_def ETH_MCB_DATA_POS_def memcpy_def frame_bytes_def
      word_bytes_def)

text \<open>
  C6. The claim: the TCP listener delivers a statusword after every successful poll and
  only then, and the value is the word that read returned. In the source every iteration
  of the poll loop, failed or not, ends with the dispatch, and the value is the low 16
  bits of the buffer's address: at a first poll whose send fails the subscriber for id 1
  is called with 0xA2B4, and at a second, successful poll that reads 0x1234 it is called
  with 0xA2B4 again.
\<close>

theorem poll_body_delivers_always:
  "calls (poll_body e s)
     = calls s @ sw_notify_first 1 (ucast (e_buf_addr e))
                   (map (subs (e_subs e (polls s))) [0..<subs_sz (e_subs e (polls s))])
   \<and> (let E = \<lparr>e_node_dflt = 0xA, e_buf_addr = 0x7FFC10A2B4,
                e_send = (\<lambda>k. if k = 0 then Some IL_EIO else None),
                e_recv = (\<lambda>k. [0x00A1, 0x0116, 0x1234, 0, 0, 0, 0xD557]),
                e_subs = (\<lambda>k. \<lparr>subs = (\<lambda>i. \<lparr>sub_id = 1, sub_cb = 100, sub_ctx = 7\<rparr>),
                                 subs_alloc = 1, subs_cnt = 1, subs_sz = 1\<rparr>),
                e_connect = (\<lambda>k. - 1), e_stop_reconnect = (\<lambda>k. 1)\<rparr>;
           S0 = \<lparr>error_count = 0, l_buf = 0, l_stop = 0, polls = 0, connects = 0,
                 flag_reads = 0, reconnects = 0, calls = []\<rparr>
       in \<not> poll_ok E 0
          \<and> calls (poll_body E S0) = [(100, 7, 0xA2B4)]
          \<and> error_count (poll_body E S0) = 1
          \<and> poll_ok E 1
          \<and> l_buf (poll_body E (poll_body E S0)) = 0x1234
          \<and> calls (poll_body E (poll_body E S0)) = [(100, 7, 0xA2B4), (100, 7, 0xA2B4)])"
proof -
  let ?E = "\<lparr>e_node_dflt = 0xA, e_buf_addr = 0x7FFC10A2B4,
                e_send = (\<lambda>k. if k = 0 then Some IL_EIO else None),
                e_recv = (\<lambda>k. [0x00A1, 0x0116, 0x1234, 0, 0, 0, 0xD557]),
                e_subs = (\<lambda>k. \<lparr>subs = (\<lambda>i. \<lparr>sub_id = 1, sub_cb = 100, sub_ctx = 7\<rparr>),
                                 subs_alloc = 1, subs_cnt = 1, subs_sz = 1\<rparr>),
                e_connect = (\<lambda>k. - 1), e_stop_reconnect = (\<lambda>k. 1)\<rparr> :: eth_env"
  let ?S0 = "\<lparr>error_count = 0, l_buf = 0, l_stop = 0, polls = 0, connects = 0,
                 flag_reads = 0, reconnects = 0, calls = []\<rparr> :: listener_state"
  have g: "calls (poll_body e s)
     = calls s @ sw_notify_first 1 (ucast (e_buf_addr e))
                   (map (subs (e_subs e (polls s))) [0..<subs_sz (e_subs e (polls s))])"
    by (simp add: poll_body_calls process_statusword_eth_def)
  have d: "process_statusword_eth (e_subs ?E k) 1 (e_buf_addr ?E) = [(100, 7, 0xA2B4)]" for k
    by (simp add: process_statusword_eth_def)
  have p0: "poll_body ?E ?S0 = ?S0\<lparr>error_count := 1, calls := [(100, 7, 0xA2B4)], polls := 1\<rparr>"
    using poll_body_send_failed [of ?E ?S0 IL_EIO] d by simp
  let ?S1 = "?S0\<lparr>error_count := 1, calls := [(100, 7, 0xA2B4)], polls := 1\<rparr>"
  have r: "net_recv (e_recv ?E (polls ?S1)) (word_bytes (l_buf ?S1)) 2 = Inr [0x34, 0x12]"
    by (simp add: word_bytes_def ack_frame_recv)
  have s1: "e_send ?E (polls ?S1) = None" by simp
  have p1: "poll_body ?E ?S1 = ?S1\<lparr>error_count := 0, l_buf := 0x1234,
              calls := [(100, 7, 0xA2B4), (100, 7, 0xA2B4)], polls := 2\<rparr>"
    unfolding poll_body_success [OF s1 r] using d by (simp add: le16_def)
  have n0: "\<not> poll_ok ?E 0" by (simp add: poll_ok_def)
  have k1: "poll_ok ?E 1" by (simp add: poll_ok_def ack_frame_recv)
  show ?thesis
    unfolding Let_def p0 p1 using g n0 k1 by simp
qed

section \<open>The claim about the TCP listener and the reconnection\<close>

lemma poll_loop_unroll:
  "(\<And>m. m < n \<Longrightarrow> error_count ((poll_body e ^^ m) s) < 10) \<Longrightarrow>
   poll_loop e s = poll_loop e ((poll_body e ^^ n) s)"
proof (induction n)
  case 0
  then show ?case by simp
next
  case (Suc n)
  then have "poll_loop e s = poll_loop e ((poll_body e ^^ n) s)" by simp
  also have "\<dots> = poll_loop e (poll_body e ((poll_body e ^^ n) s))"
    using Suc.prems [of n] by (subst poll_loop.simps) simp
  finally show ?case by simp
qed

lemma poll_loop_exit:
  "poll_loop e s = Some s' \<Longrightarrow>
   \<exists>n. s' = (poll_body e ^^ n) s \<and> \<not> error_count s' < 10
       \<and> (\<forall>m<n. error_count ((poll_body e ^^ m) s) < 10)"
proof (induct rule: poll_loop.raw_induct [rotated 1, consumes 1, case_names step])
  case (step f e s s')
  show ?case
  proof (cases "error_count s < 10")
    case False
    with step(2) have "s' = s" by simp
    with False show ?thesis by (intro exI [of _ 0]) simp
  next
    case True
    with step(2) have "f e (poll_body e s) = Some s'" by simp
    from step(1) [OF this] obtain n where
      n: "s' = (poll_body e ^^ n) (poll_body e s)" "\<not> error_count s' < 10"
         "\<forall>m<n. error_count ((poll_body e ^^ m) (poll_body e s)) < 10"
      by blast
    have "\<forall>m<Suc n. error_count ((poll_body e ^^ m) s) < 10"
    proof (intro allI impI)
      fix m assume "m < Suc n"
      show "error_count ((poll_body e ^^ m) s) < 10"
      proof (cases m)
        case 0
        with True show ?thesis by simp
      next
        case (Suc k)
        with \<open>m < Suc n\<close> n(3) show ?thesis by (simp add: funpow_swap1)
      qed
    qed
    with n(1,2) show ?thesis
      by (intro exI [of _ "Suc n"]) (simp add: funpow_swap1)
  qed
qed

lemma poll_loop_terminates:
  assumes "\<not> error_count ((poll_body e ^^ m) s) < 10"
  shows "\<exists>n\<le>m. poll_loop e s = Some ((poll_body e ^^ n) s)
           \<and> \<not> error_count ((poll_body e ^^ n) s) < 10
           \<and> (\<forall>k<n. error_count ((poll_body e ^^ k) s) < 10)"
proof -
  let ?P = "\<lambda>n. \<not> error_count ((poll_body e ^^ n) s) < 10"
  let ?n = "LEAST n. ?P n"
  have ex: "?P ?n" using assms by (rule LeastI [of ?P])
  have le: "?n \<le> m" using assms by (rule Least_le [of ?P])
  have before: "\<forall>k<?n. error_count ((poll_body e ^^ k) s) < 10"
    using not_less_Least [of _ ?P] by blast
  then have "poll_loop e s = poll_loop e ((poll_body e ^^ ?n) s)"
    by (intro poll_loop_unroll) simp
  also have "\<dots> = Some ((poll_body e ^^ ?n) s)"
    using ex by (subst poll_loop.simps) simp
  finally show ?thesis using le ex before by blast
qed

lemma funpow_polls: "polls ((poll_body e ^^ m) s) = polls s + m"
  by (induction m) (simp_all add: poll_body_counters)

lemma funpow_counters:
  "connects ((poll_body e ^^ m) s) = connects s \<and> flag_reads ((poll_body e ^^ m) s) = flag_reads s
   \<and> reconnects ((poll_body e ^^ m) s) = reconnects s \<and> l_stop ((poll_body e ^^ m) s) = l_stop s"
  by (induction m) (simp_all add: poll_body_counters)

lemma funpow_step:
  "error_count ((poll_body e ^^ Suc m) s)
     = (if poll_ok e (polls s + m) then 0 else error_count ((poll_body e ^^ m) s) + 1)"
  by (simp add: poll_body_error_count funpow_polls)

lemma trailing_failures:
  assumes "error_count s = 0"
  shows "0 \<le> error_count ((poll_body e ^^ m) s) \<and> error_count ((poll_body e ^^ m) s) \<le> int m
         \<and> (\<forall>j. int j < error_count ((poll_body e ^^ m) s) \<longrightarrow> \<not> poll_ok e (polls s + m - 1 - j))"
proof (induction m)
  case 0
  with assms show ?case by simp
next
  case (Suc m)
  show ?case
  proof (cases "poll_ok e (polls s + m)")
    case True
    then show ?thesis by (simp add: funpow_step del: funpow.simps)
  next
    case False
    have ec: "error_count ((poll_body e ^^ Suc m) s) = error_count ((poll_body e ^^ m) s) + 1"
      using False by (simp add: funpow_step del: funpow.simps)
    have "\<not> poll_ok e (polls s + Suc m - 1 - j)"
      if "int j < error_count ((poll_body e ^^ Suc m) s)" for j
    proof (cases j)
      case 0
      with False show ?thesis by simp
    next
      case (Suc i)
      with that ec have i: "int i < error_count ((poll_body e ^^ m) s)" by simp
      with Suc.IH have "\<not> poll_ok e (polls s + m - 1 - i)" and "i < m" by auto
      then show ?thesis using Suc by simp
    qed
    with Suc.IH ec show ?thesis by (simp del: funpow.simps)
  qed
qed

lemma run_of_failures:
  assumes "\<forall>j<c. \<not> poll_ok e (polls s + m + j)"
  shows "error_count ((poll_body e ^^ (m + c)) s) = error_count ((poll_body e ^^ m) s) + int c"
  using assms
proof (induction c)
  case 0
  then show ?case by simp
next
  case (Suc c)
  then have "\<not> poll_ok e (polls s + (m + c))" by (simp add: add.assoc)
  then have "error_count ((poll_body e ^^ Suc (m + c)) s) = error_count ((poll_body e ^^ (m + c)) s) + 1"
    by (simp add: funpow_step del: funpow.simps)
  with Suc show ?case by (simp del: funpow.simps)
qed

lemma run_reaches_ten:
  assumes ec: "error_count s = 0" and n: "polls s \<le> n" and run: "\<forall>j<10. \<not> poll_ok e (n + j)"
  shows "\<not> error_count ((poll_body e ^^ (n - polls s + 10)) s) < 10"
proof -
  let ?m = "n - polls s"
  have "\<forall>j<10. \<not> poll_ok e (polls s + ?m + j)" using n run by simp
  from run_of_failures [OF this]
  have "error_count ((poll_body e ^^ (?m + 10)) s) = error_count ((poll_body e ^^ ?m) s) + 10"
    by simp
  moreover have "0 \<le> error_count ((poll_body e ^^ ?m) s)"
    using trailing_failures [OF ec] by blast
  ultimately show ?thesis by simp
qed

lemma poll_loop_exit_props:
  assumes ex: "poll_loop e s = Some s1" and ec: "error_count s = 0"
  shows "error_count s1 = 10 \<and> polls s + 10 \<le> polls s1
     \<and> (\<forall>j<10. \<not> poll_ok e (polls s1 - 10 + j))
     \<and> (\<forall>n. polls s \<le> n \<and> (\<forall>j<10. \<not> poll_ok e (n + j)) \<longrightarrow> polls s1 \<le> n + 10)
     \<and> flag_reads s1 = flag_reads s \<and> connects s1 = connects s
     \<and> reconnects s1 = reconnects s \<and> l_stop s1 = l_stop s"
proof -
  from poll_loop_exit [OF ex] obtain n where
    s1: "s1 = (poll_body e ^^ n) s" and ge: "\<not> error_count s1 < 10"
    and before: "\<forall>m<n. error_count ((poll_body e ^^ m) s) < 10"
    by blast
  have "n \<noteq> 0" using s1 ge ec by (cases n) simp_all
  then obtain k where k: "n = Suc k" by (cases n) simp_all
  have "error_count ((poll_body e ^^ k) s) < 10" using before k by simp
  moreover have "error_count s1 \<le> error_count ((poll_body e ^^ k) s) + 1"
    unfolding s1 k funpow_step using trailing_failures [OF ec, where e = e and m = k] by simp
  ultimately have ten: "error_count s1 = 10" using ge by simp
  have tf: "error_count s1 \<le> int n"
    "\<forall>j. int j < error_count s1 \<longrightarrow> \<not> poll_ok e (polls s + n - 1 - j)"
    unfolding s1 using trailing_failures [OF ec, where e = e and m = n] by blast+
  have n10: "10 \<le> n" using tf(1) ten by simp
  have p: "polls s1 = polls s + n" by (simp add: s1 funpow_polls)
  have last: "\<forall>j<10. \<not> poll_ok e (polls s1 - 10 + j)"
  proof (intro allI impI)
    fix j :: nat assume j: "j < 10"
    then have "int (9 - j) < error_count s1" using ten by simp
    with tf(2) have "\<not> poll_ok e (polls s + n - 1 - (9 - j))" by blast
    moreover have "polls s + n - 1 - (9 - j) = polls s1 - 10 + j" using p n10 j by simp
    ultimately show "\<not> poll_ok e (polls s1 - 10 + j)" by simp
  qed
  have first: "\<forall>n'. polls s \<le> n' \<and> (\<forall>j<10. \<not> poll_ok e (n' + j)) \<longrightarrow> polls s1 \<le> n' + 10"
  proof (intro allI impI)
    fix n' assume a: "polls s \<le> n' \<and> (\<forall>j<10. \<not> poll_ok e (n' + j))"
    then have "\<not> error_count ((poll_body e ^^ (n' - polls s + 10)) s) < 10"
      using run_reaches_ten [OF ec] by blast
    with before have "\<not> n' - polls s + 10 < n" by blast
    moreover from a have "polls s \<le> n'" by blast
    ultimately have "polls s + n \<le> n' + 10" by linarith
    with p show "polls s1 \<le> n' + 10" by simp
  qed
  show ?thesis
    using ten p n10 last first funpow_counters [where e = e and m = n and s = s] unfolding s1 [symmetric] by simp
qed

lemma poll_loop_returns_iff:
  assumes ec: "error_count s = 0"
  shows "(\<exists>s1. poll_loop e s = Some s1) \<longleftrightarrow> (\<exists>n. polls s \<le> n \<and> (\<forall>j<10. \<not> poll_ok e (n + j)))"
proof
  assume "\<exists>s1. poll_loop e s = Some s1"
  then obtain s1 where ex: "poll_loop e s = Some s1" by blast
  from poll_loop_exit_props [OF ex ec]
  have a: "polls s + 10 \<le> polls s1" and b: "\<forall>j<10. \<not> poll_ok e (polls s1 - 10 + j)"
    by blast+
  from a have "polls s \<le> polls s1 - 10" by linarith
  with b show "\<exists>n. polls s \<le> n \<and> (\<forall>j<10. \<not> poll_ok e (n + j))" by blast
next
  assume "\<exists>n. polls s \<le> n \<and> (\<forall>j<10. \<not> poll_ok e (n + j))"
  then obtain n where "polls s \<le> n" "\<forall>j<10. \<not> poll_ok e (n + j)" by blast
  from run_reaches_ten [OF ec this] poll_loop_terminates
  show "\<exists>s1. poll_loop e s = Some s1" by blast
qed

lemma reconnect_loop_terminates:
  "0 \<le> r \<or> e_stop_reconnect e (flag_reads s + k) \<noteq> 0 \<or> 0 \<le> e_connect e (connects s + k) \<Longrightarrow>
   \<exists>s'. reconnect_loop e r s = Some s' \<and> polls s' = polls s \<and> calls s' = calls s
        \<and> reconnects s' = reconnects s \<and> error_count s' = error_count s"
proof (induction k arbitrary: r s)
  case 0
  show ?case
  proof (cases "r < 0 \<and> e_stop_reconnect e (flag_reads s) = 0")
    case False
    then show ?thesis by (subst reconnect_loop.simps) auto
  next
    case True
    with 0 have c: "0 \<le> e_connect e (connects s)" by simp
    let ?s1 = "s\<lparr>flag_reads := flag_reads s + 1, connects := connects s + 1, l_stop := 0\<rparr>"
    have "reconnect_loop e r s = reconnect_loop e (e_connect e (connects s)) ?s1"
      using True c by (subst reconnect_loop.simps) (simp add: Let_def)
    also have "\<dots> = Some ?s1" using c by (subst reconnect_loop.simps) simp
    finally show ?thesis by simp
  qed
next
  case (Suc k)
  show ?case
  proof (cases "r < 0 \<and> e_stop_reconnect e (flag_reads s) = 0")
    case False
    then show ?thesis by (subst reconnect_loop.simps) auto
  next
    case True
    let ?r = "e_connect e (connects s)"
    let ?s1 = "s\<lparr>flag_reads := flag_reads s + 1, connects := connects s + 1,
                  l_stop := (if ?r < 0 then l_stop s else 0)\<rparr>"
    have step: "reconnect_loop e r s = reconnect_loop e ?r ?s1"
      using True by (subst reconnect_loop.simps) (simp add: Let_def)
    from Suc.prems True
    have "0 \<le> ?r \<or> e_stop_reconnect e (flag_reads ?s1 + k) \<noteq> 0 \<or> 0 \<le> e_connect e (connects ?s1 + k)"
      by simp
    from Suc.IH [OF this] step show ?thesis by simp
  qed
qed

lemma reconnect_loop_returned:
  "reconnect_loop e r s = Some s' \<Longrightarrow>
   0 \<le> r \<or> (\<exists>k. e_stop_reconnect e (flag_reads s + k) \<noteq> 0 \<or> 0 \<le> e_connect e (connects s + k))"
proof (induct rule: reconnect_loop.raw_induct [rotated 1, consumes 1, case_names step])
  case (step f e r s s')
  show ?case
  proof (cases "r < 0")
    case False
    then show ?thesis by simp
  next
    case neg: True
    show ?thesis
    proof (cases "e_stop_reconnect e (flag_reads s) = 0")
      case False
      then have "e_stop_reconnect e (flag_reads s + 0) \<noteq> 0" by simp
      then show ?thesis by blast
    next
      case True
      let ?r = "e_connect e (connects s)"
      let ?s1 = "s\<lparr>flag_reads := flag_reads s + 1, connects := connects s + 1,
                    l_stop := (if ?r < 0 then l_stop s else 0)\<rparr>"
      from step(2) neg True have "f e ?r ?s1 = Some s'" by (simp add: Let_def)
      from step(1) [OF this]
      have "0 \<le> ?r \<or> (\<exists>k. e_stop_reconnect e (flag_reads ?s1 + k) \<noteq> 0
                           \<or> 0 \<le> e_connect e (connects ?s1 + k))" .
      then show ?thesis
      proof
        assume "0 \<le> ?r"
        then have "0 \<le> e_connect e (connects s + 0)" by simp
        then show ?thesis by blast
      next
        assume "\<exists>k. e_stop_reconnect e (flag_reads ?s1 + k) \<noteq> 0 \<or> 0 \<le> e_connect e (connects ?s1 + k)"
        then obtain k where "e_stop_reconnect e (flag_reads s + Suc k) \<noteq> 0
                             \<or> 0 \<le> e_connect e (connects s + Suc k)" by auto
        then show ?thesis by blast
      qed
    qed
  qed
qed

lemma il_net_reconnect_returns_iff:
  "(\<exists>r s'. il_net_reconnect e s = Some (r, s')) \<longleftrightarrow>
   (\<exists>k. e_stop_reconnect e (flag_reads s + k) \<noteq> 0 \<or> 0 \<le> e_connect e (connects s + k))"
proof
  assume "\<exists>r s'. il_net_reconnect e s = Some (r, s')"
  then obtain s' where "reconnect_loop e (- 1) (s\<lparr>l_stop := 1\<rparr>) = Some s'"
    by (auto simp: il_net_reconnect_def split: option.splits)
  from reconnect_loop_returned [OF this]
  show "\<exists>k. e_stop_reconnect e (flag_reads s + k) \<noteq> 0 \<or> 0 \<le> e_connect e (connects s + k)"
    by simp
next
  assume "\<exists>k. e_stop_reconnect e (flag_reads s + k) \<noteq> 0 \<or> 0 \<le> e_connect e (connects s + k)"
  then obtain k where
    "0 \<le> (- 1 :: int) \<or> e_stop_reconnect e (flag_reads (s\<lparr>l_stop := 1\<rparr>) + k) \<noteq> 0
       \<or> 0 \<le> e_connect e (connects (s\<lparr>l_stop := 1\<rparr>) + k)"
    by auto
  from reconnect_loop_terminates [OF this]
  show "\<exists>r s'. il_net_reconnect e s = Some (r, s')"
    by (auto simp: il_net_reconnect_def)
qed

lemma il_net_reconnect_keeps:
  assumes "il_net_reconnect e s = Some (r, s')"
  shows "polls s' = polls s \<and> calls s' = calls s \<and> reconnects s' = reconnects s"
proof -
  from assms obtain t where t: "reconnect_loop e (- 1) (s\<lparr>l_stop := 1\<rparr>) = Some t"
    and s': "s' = t\<lparr>flag_reads := flag_reads t + 1\<rparr>"
    by (auto simp: il_net_reconnect_def split: option.splits)
  from reconnect_loop_returned [OF t] obtain k where
    "0 \<le> (- 1 :: int) \<or> e_stop_reconnect e (flag_reads (s\<lparr>l_stop := 1\<rparr>) + k) \<noteq> 0
       \<or> 0 \<le> e_connect e (connects (s\<lparr>l_stop := 1\<rparr>) + k)"
    by auto
  from reconnect_loop_terminates [OF this] t s' show ?thesis by auto
qed

lemma il_net_reconnect_stopped:
  assumes "\<forall>k\<ge>flag_reads s. e_stop_reconnect e k \<noteq> 0"
  shows "il_net_reconnect e s =
           Some (e_stop_reconnect e (flag_reads s + 1), s\<lparr>l_stop := 1, flag_reads := flag_reads s + 2\<rparr>)
         \<and> e_stop_reconnect e (flag_reads s + 1) \<noteq> 0"
proof -
  have f0: "e_stop_reconnect e (flag_reads s) \<noteq> 0" and f1: "e_stop_reconnect e (flag_reads s + 1) \<noteq> 0"
    using assms by simp_all
  have "reconnect_loop e (- 1) (s\<lparr>l_stop := 1\<rparr>) = Some (s\<lparr>l_stop := 1, flag_reads := flag_reads s + 1\<rparr>)"
    using f0 by (subst reconnect_loop.simps) simp
  with f1 show ?thesis by (simp add: il_net_reconnect_def)
qed

lemma listener_after_polls:
  assumes p: "poll_loop e (s\<lparr>error_count := 0\<rparr>) = Some s1"
    and r: "il_net_reconnect e (s1\<lparr>reconnects := reconnects s1 + 1\<rparr>) = Some (r, s2)"
  shows "listener_eth e s = (if r = 0 then listener_eth e s2 else Some s2)"
proof -
  have "error_count s1 = 10" using poll_loop_exit_props [OF p] by simp
  with p r show ?thesis by (subst listener_eth.simps) simp
qed

lemma listener_stops:
  assumes p: "poll_loop e (s\<lparr>error_count := 0\<rparr>) = Some s1"
    and f: "\<forall>k\<ge>flag_reads s. e_stop_reconnect e k \<noteq> 0"
  shows "listener_eth e s =
           Some (s1\<lparr>reconnects := reconnects s1 + 1, l_stop := 1, flag_reads := flag_reads s1 + 2\<rparr>)"
proof -
  have fr: "flag_reads s1 = flag_reads s" using poll_loop_exit_props [OF p] by simp
  let ?s = "s1\<lparr>reconnects := reconnects s1 + 1\<rparr>"
  have "\<forall>k\<ge>flag_reads ?s. e_stop_reconnect e k \<noteq> 0" using f fr by simp
  from il_net_reconnect_stopped [OF this]
  have "il_net_reconnect e ?s =
          Some (e_stop_reconnect e (flag_reads s1 + 1),
                s1\<lparr>reconnects := reconnects s1 + 1, l_stop := 1, flag_reads := flag_reads s1 + 2\<rparr>)"
    and "e_stop_reconnect e (flag_reads s1 + 1) \<noteq> 0"
    by simp_all
  with listener_after_polls [OF p] show ?thesis by simp
qed

lemma reconnect_loop_reads:
  "reconnect_loop e r s = Some s' \<Longrightarrow> flag_reads s \<le> flag_reads s'"
proof (induct rule: reconnect_loop.raw_induct [rotated 1, consumes 1, case_names step])
  case (step f e r s s')
  show ?case
  proof (cases "r < 0")
    case False
    with step(2) show ?thesis by simp
  next
    case neg: True
    show ?thesis
    proof (cases "e_stop_reconnect e (flag_reads s) = 0")
      case False
      with step(2) neg show ?thesis by auto
    next
      case True
      let ?r = "e_connect e (connects s)"
      let ?s1 = "s\<lparr>flag_reads := flag_reads s + 1, connects := connects s + 1,
                    l_stop := (if ?r < 0 then l_stop s else 0)\<rparr>"
      from step(2) neg True have "f e ?r ?s1 = Some s'" by (simp add: Let_def)
      from step(1) [OF this] show ?thesis by simp
    qed
  qed
qed

lemma il_net_reconnect_value:
  assumes "il_net_reconnect e s = Some (r, s')"
  shows "flag_reads s < flag_reads s' \<and> r = e_stop_reconnect e (flag_reads s' - 1)"
proof -
  from assms obtain t where t: "reconnect_loop e (- 1) (s\<lparr>l_stop := 1\<rparr>) = Some t"
    and s': "s' = t\<lparr>flag_reads := flag_reads t + 1\<rparr>" and r: "r = e_stop_reconnect e (flag_reads t)"
    by (auto simp: il_net_reconnect_def split: option.splits)
  from reconnect_loop_reads [OF t] have "flag_reads s \<le> flag_reads t" by simp
  with s' r show ?thesis by simp
qed

lemma reconnect_loop_flag_later:
  assumes "r < 0"
    and "\<forall>i<m. e_stop_reconnect e (flag_reads s + i) = 0 \<and> e_connect e (connects s + i) < 0"
    and "e_stop_reconnect e (flag_reads s + m) \<noteq> 0"
  shows "reconnect_loop e r s =
           Some (s\<lparr>flag_reads := flag_reads s + m + 1, connects := connects s + m\<rparr>)"
  using assms
proof (induction m arbitrary: r s)
  case 0
  then show ?case by (subst reconnect_loop.simps) simp
next
  case (Suc m)
  from Suc.prems(2) have z: "e_stop_reconnect e (flag_reads s) = 0" and c: "e_connect e (connects s) < 0"
    by force+
  let ?s1 = "s\<lparr>flag_reads := flag_reads s + 1, connects := connects s + 1\<rparr>"
  have step: "reconnect_loop e r s = reconnect_loop e (e_connect e (connects s)) ?s1"
    using Suc.prems(1) z c by (subst reconnect_loop.simps) (simp add: Let_def)
  have a: "\<forall>i<m. e_stop_reconnect e (flag_reads ?s1 + i) = 0 \<and> e_connect e (connects ?s1 + i) < 0"
  proof (intro allI impI)
    fix i assume "i < m"
    then have "Suc i < Suc m" by simp
    with Suc.prems(2) have "e_stop_reconnect e (flag_reads s + Suc i) = 0
        \<and> e_connect e (connects s + Suc i) < 0" by blast
    then show "e_stop_reconnect e (flag_reads ?s1 + i) = 0 \<and> e_connect e (connects ?s1 + i) < 0"
      by simp
  qed
  have b: "e_stop_reconnect e (flag_reads ?s1 + m) \<noteq> 0" using Suc.prems(3) by simp
  from Suc.IH [OF c a b] step show ?case by simp
qed

lemma il_net_reconnect_flag_later:
  assumes a: "\<forall>i<m. e_stop_reconnect e (flag_reads s + i) = 0 \<and> e_connect e (connects s + i) < 0"
    and f: "\<forall>k\<ge>flag_reads s + m. e_stop_reconnect e k \<noteq> 0"
  shows "il_net_reconnect e s =
           Some (e_stop_reconnect e (flag_reads s + m + 1),
                 s\<lparr>l_stop := 1, flag_reads := flag_reads s + m + 2, connects := connects s + m\<rparr>)
         \<and> e_stop_reconnect e (flag_reads s + m + 1) \<noteq> 0"
proof -
  let ?s = "s\<lparr>l_stop := 1\<rparr>"
  have a': "\<forall>i<m. e_stop_reconnect e (flag_reads ?s + i) = 0 \<and> e_connect e (connects ?s + i) < 0"
    using a by simp
  have f0: "e_stop_reconnect e (flag_reads ?s + m) \<noteq> 0" using f by simp
  have f1: "e_stop_reconnect e (flag_reads s + m + 1) \<noteq> 0" using f by simp
  have neg: "(- 1 :: int) < 0" by simp
  from reconnect_loop_flag_later [OF neg a' f0] f1 show ?thesis
    by (simp add: il_net_reconnect_def)
qed

lemma listener_stops_later:
  assumes p: "poll_loop e (s\<lparr>error_count := 0\<rparr>) = Some s1"
    and a: "\<forall>i<m. e_stop_reconnect e (flag_reads s + i) = 0 \<and> e_connect e (connects s + i) < 0"
    and f: "\<forall>k\<ge>flag_reads s + m. e_stop_reconnect e k \<noteq> 0"
  shows "listener_eth e s =
           Some (s1\<lparr>reconnects := reconnects s1 + 1, l_stop := 1,
                    flag_reads := flag_reads s1 + m + 2, connects := connects s1 + m\<rparr>)"
proof -
  have fr: "flag_reads s1 = flag_reads s" and co: "connects s1 = connects s"
    using poll_loop_exit_props [OF p] by simp_all
  let ?s = "s1\<lparr>reconnects := reconnects s1 + 1\<rparr>"
  have a': "\<forall>i<m. e_stop_reconnect e (flag_reads ?s + i) = 0 \<and> e_connect e (connects ?s + i) < 0"
    using a fr co by simp
  have f': "\<forall>k\<ge>flag_reads ?s + m. e_stop_reconnect e k \<noteq> 0" using f fr by simp
  from il_net_reconnect_flag_later [OF a' f']
  have "il_net_reconnect e ?s =
          Some (e_stop_reconnect e (flag_reads s1 + m + 1),
                s1\<lparr>reconnects := reconnects s1 + 1, l_stop := 1,
                   flag_reads := flag_reads s1 + m + 2, connects := connects s1 + m\<rparr>)"
    and "e_stop_reconnect e (flag_reads s1 + m + 1) \<noteq> 0"
    by simp_all
  with listener_after_polls [OF p] show ?thesis by simp
qed

lemma listener_returns_on_flag:
  assumes p: "poll_loop e (s\<lparr>error_count := 0\<rparr>) = Some s1"
    and r: "il_net_reconnect e (s1\<lparr>reconnects := reconnects s1 + 1\<rparr>) = Some (r, s2)"
  shows "(e_stop_reconnect e (flag_reads s2 - 1) \<noteq> 0 \<longrightarrow>
            listener_eth e s = Some s2 \<and> polls s2 = polls s1 \<and> calls s2 = calls s1)
         \<and> (e_stop_reconnect e (flag_reads s2 - 1) = 0 \<longrightarrow> listener_eth e s = listener_eth e s2)"
proof -
  from il_net_reconnect_value [OF r] have v: "r = e_stop_reconnect e (flag_reads s2 - 1)" by simp
  from il_net_reconnect_keeps [OF r] have k: "polls s2 = polls s1" "calls s2 = calls s1" by simp_all
  from listener_after_polls [OF p r] v k show ?thesis by simp
qed

text \<open>
  C8. In the TCP listener a successful poll resets the error counter and a failed poll
  increments it. The poll loop ends exactly when ten consecutive polls have failed: it
  returns if and only if such a run exists, it returns with the counter at 10 right after
  the first such run, and the listener then invokes the reconnection. The reconnection
  returns if and only if some connection attempt succeeds or some read of
  \<open>stop_reconnect\<close> finds it set; it polls nothing, and what it returns is the value
  of \<open>stop_reconnect\<close> at its last read. When that value is not zero the listener
  returns without another poll; when it is zero the listener starts over. Once
  \<open>stop_reconnect\<close> is set, whether before the reconnection starts or while it is
  looping over failing connection attempts, the reconnection returns a non-zero value
  after no further attempt, and the listener returns without another poll.
\<close>

theorem listener_eth_reconnects:
  "error_count (poll_body e s) = (if poll_ok e (polls s) then 0 else error_count s + 1)
   \<and> ((\<exists>s1. poll_loop e (s\<lparr>error_count := 0\<rparr>) = Some s1) \<longleftrightarrow>
        (\<exists>n. polls s \<le> n \<and> (\<forall>j<10. \<not> poll_ok e (n + j))))
   \<and> (\<forall>s1. poll_loop e (s\<lparr>error_count := 0\<rparr>) = Some s1 \<longrightarrow>
         error_count s1 = 10 \<and> polls s + 10 \<le> polls s1
         \<and> (\<forall>j<10. \<not> poll_ok e (polls s1 - 10 + j))
         \<and> (\<forall>n. polls s \<le> n \<and> (\<forall>j<10. \<not> poll_ok e (n + j)) \<longrightarrow> polls s1 \<le> n + 10)
         \<and> (\<forall>r s2. il_net_reconnect e (s1\<lparr>reconnects := reconnects s1 + 1\<rparr>) = Some (r, s2) \<longrightarrow>
               listener_eth e s = (if r = 0 then listener_eth e s2 else Some s2)
               \<and> (e_stop_reconnect e (flag_reads s2 - 1) \<noteq> 0 \<longrightarrow>
                     listener_eth e s = Some s2 \<and> polls s2 = polls s1 \<and> calls s2 = calls s1)
               \<and> (e_stop_reconnect e (flag_reads s2 - 1) = 0 \<longrightarrow>
                     listener_eth e s = listener_eth e s2)))
   \<and> ((\<exists>r s'. il_net_reconnect e s = Some (r, s')) \<longleftrightarrow>
        (\<exists>k. e_stop_reconnect e (flag_reads s + k) \<noteq> 0 \<or> 0 \<le> e_connect e (connects s + k)))
   \<and> (\<forall>r s'. il_net_reconnect e s = Some (r, s') \<longrightarrow>
         polls s' = polls s \<and> calls s' = calls s
         \<and> flag_reads s < flag_reads s' \<and> r = e_stop_reconnect e (flag_reads s' - 1))
   \<and> ((\<forall>k\<ge>flag_reads s. e_stop_reconnect e k \<noteq> 0) \<longrightarrow>
         (\<exists>r s'. il_net_reconnect e s = Some (r, s') \<and> r \<noteq> 0 \<and> connects s' = connects s)
         \<and> (\<forall>s1. poll_loop e (s\<lparr>error_count := 0\<rparr>) = Some s1 \<longrightarrow>
               (\<exists>s2. listener_eth e s = Some s2 \<and> polls s2 = polls s1 \<and> calls s2 = calls s1
                     \<and> reconnects s2 = reconnects s + 1)))
   \<and> (\<forall>m. (\<forall>i<m. e_stop_reconnect e (flag_reads s + i) = 0 \<and> e_connect e (connects s + i) < 0)
            \<and> (\<forall>k\<ge>flag_reads s + m. e_stop_reconnect e k \<noteq> 0) \<longrightarrow>
         (\<exists>r s'. il_net_reconnect e s = Some (r, s') \<and> r \<noteq> 0
                 \<and> connects s' = connects s + m \<and> polls s' = polls s)
         \<and> (\<forall>s1. poll_loop e (s\<lparr>error_count := 0\<rparr>) = Some s1 \<longrightarrow>
               (\<exists>s2. listener_eth e s = Some s2 \<and> polls s2 = polls s1 \<and> calls s2 = calls s1
                     \<and> reconnects s2 = reconnects s + 1 \<and> connects s2 = connects s + m)))"
proof -
  let ?s0 = "s\<lparr>error_count := 0\<rparr>"
  have ec0: "error_count ?s0 = 0" by simp
  have q: "polls ?s0 = polls s" "flag_reads ?s0 = flag_reads s" "connects ?s0 = connects s"
    "reconnects ?s0 = reconnects s" "l_stop ?s0 = l_stop s"
    by simp_all
  have 1: "error_count (poll_body e s) = (if poll_ok e (polls s) then 0 else error_count s + 1)"
    by (rule poll_body_error_count)
  have 2: "(\<exists>s1. poll_loop e ?s0 = Some s1) \<longleftrightarrow>
        (\<exists>n. polls s \<le> n \<and> (\<forall>j<10. \<not> poll_ok e (n + j)))"
    using poll_loop_returns_iff [OF ec0, of e] by simp
  have 3: "error_count s1 = 10 \<and> polls s + 10 \<le> polls s1
         \<and> (\<forall>j<10. \<not> poll_ok e (polls s1 - 10 + j))
         \<and> (\<forall>n. polls s \<le> n \<and> (\<forall>j<10. \<not> poll_ok e (n + j)) \<longrightarrow> polls s1 \<le> n + 10)
         \<and> (\<forall>r s2. il_net_reconnect e (s1\<lparr>reconnects := reconnects s1 + 1\<rparr>) = Some (r, s2) \<longrightarrow>
               listener_eth e s = (if r = 0 then listener_eth e s2 else Some s2)
               \<and> (e_stop_reconnect e (flag_reads s2 - 1) \<noteq> 0 \<longrightarrow>
                     listener_eth e s = Some s2 \<and> polls s2 = polls s1 \<and> calls s2 = calls s1)
               \<and> (e_stop_reconnect e (flag_reads s2 - 1) = 0 \<longrightarrow>
                     listener_eth e s = listener_eth e s2))"
    if p: "poll_loop e ?s0 = Some s1" for s1
    using poll_loop_exit_props [OF p ec0, unfolded q] listener_after_polls [OF p]
      listener_returns_on_flag [OF p]
    by blast
  have 4: "(\<exists>r s'. il_net_reconnect e s = Some (r, s')) \<longleftrightarrow>
        (\<exists>k. e_stop_reconnect e (flag_reads s + k) \<noteq> 0 \<or> 0 \<le> e_connect e (connects s + k))"
    by (rule il_net_reconnect_returns_iff)
  have 5: "polls s' = polls s \<and> calls s' = calls s
         \<and> flag_reads s < flag_reads s' \<and> r = e_stop_reconnect e (flag_reads s' - 1)"
    if "il_net_reconnect e s = Some (r, s')" for r s'
    using il_net_reconnect_keeps [OF that] il_net_reconnect_value [OF that] by simp
  have 6: "(\<exists>r s'. il_net_reconnect e s = Some (r, s') \<and> r \<noteq> 0 \<and> connects s' = connects s)
         \<and> (\<forall>s1. poll_loop e ?s0 = Some s1 \<longrightarrow>
               (\<exists>s2. listener_eth e s = Some s2 \<and> polls s2 = polls s1 \<and> calls s2 = calls s1
                     \<and> reconnects s2 = reconnects s + 1))"
    if f: "\<forall>k\<ge>flag_reads s. e_stop_reconnect e k \<noteq> 0"
  proof (intro conjI allI impI)
    from il_net_reconnect_stopped [OF f]
    show "\<exists>r s'. il_net_reconnect e s = Some (r, s') \<and> r \<noteq> 0 \<and> connects s' = connects s"
      by (intro exI [of _ "e_stop_reconnect e (flag_reads s + 1)"]
                exI [of _ "s\<lparr>l_stop := 1, flag_reads := flag_reads s + 2\<rparr>"]) simp
  next
    fix s1 assume p: "poll_loop e ?s0 = Some s1"
    have "reconnects s1 = reconnects s" using poll_loop_exit_props [OF p ec0] by simp
    with listener_stops [OF p f]
    show "\<exists>s2. listener_eth e s = Some s2 \<and> polls s2 = polls s1 \<and> calls s2 = calls s1
                     \<and> reconnects s2 = reconnects s + 1"
      by simp
  qed
  have 7: "(\<exists>r s'. il_net_reconnect e s = Some (r, s') \<and> r \<noteq> 0
                 \<and> connects s' = connects s + m \<and> polls s' = polls s)
         \<and> (\<forall>s1. poll_loop e ?s0 = Some s1 \<longrightarrow>
               (\<exists>s2. listener_eth e s = Some s2 \<and> polls s2 = polls s1 \<and> calls s2 = calls s1
                     \<and> reconnects s2 = reconnects s + 1 \<and> connects s2 = connects s + m))"
    if af: "(\<forall>i<m. e_stop_reconnect e (flag_reads s + i) = 0 \<and> e_connect e (connects s + i) < 0)
            \<and> (\<forall>k\<ge>flag_reads s + m. e_stop_reconnect e k \<noteq> 0)" for m
  proof (intro conjI allI impI)
    from af have a: "\<forall>i<m. e_stop_reconnect e (flag_reads s + i) = 0 \<and> e_connect e (connects s + i) < 0"
      and f: "\<forall>k\<ge>flag_reads s + m. e_stop_reconnect e k \<noteq> 0" by blast+
    from il_net_reconnect_flag_later [OF a f]
    show "\<exists>r s'. il_net_reconnect e s = Some (r, s') \<and> r \<noteq> 0
                 \<and> connects s' = connects s + m \<and> polls s' = polls s"
      by (intro exI [of _ "e_stop_reconnect e (flag_reads s + m + 1)"]
                exI [of _ "s\<lparr>l_stop := 1, flag_reads := flag_reads s + m + 2,
                              connects := connects s + m\<rparr>"]) simp
  next
    fix s1 assume p: "poll_loop e ?s0 = Some s1"
    from af have a: "\<forall>i<m. e_stop_reconnect e (flag_reads s + i) = 0 \<and> e_connect e (connects s + i) < 0"
      and f: "\<forall>k\<ge>flag_reads s + m. e_stop_reconnect e k \<noteq> 0" by blast+
    have "reconnects s1 = reconnects s" "connects s1 = connects s"
      using poll_loop_exit_props [OF p ec0] by simp_all
    with listener_stops_later [OF p a f]
    show "\<exists>s2. listener_eth e s = Some s2 \<and> polls s2 = polls s1 \<and> calls s2 = calls s1
                     \<and> reconnects s2 = reconnects s + 1 \<and> connects s2 = connects s + m"
      by simp
  qed
  from 1 2 3 4 5 6 7 show ?thesis by blast
qed

theorem listener_eth_reconnects_witness:
  "\<exists>s1 s2.
     poll_loop
       \<lparr>e_node_dflt = 0xA, e_buf_addr = 0x7FFC10A2B4, e_send = (\<lambda>k. Some IL_EIO),
        e_recv = (\<lambda>k. []),
        e_subs = (\<lambda>k. \<lparr>subs = (\<lambda>i. \<lparr>sub_id = 1, sub_cb = 100, sub_ctx = 7\<rparr>),
                         subs_alloc = 1, subs_cnt = 1, subs_sz = 1\<rparr>),
        e_connect = (\<lambda>k. - 1), e_stop_reconnect = (\<lambda>k. if k < 3 then 0 else 1)\<rparr>
       (\<lparr>error_count = 0, l_buf = 0, l_stop = 0, polls = 0, connects = 0,
         flag_reads = 0, reconnects = 0, calls = []\<rparr>\<lparr>error_count := 0\<rparr>) = Some s1
     \<and> error_count s1 = 10 \<and> polls s1 = 10
     \<and> listener_eth
       \<lparr>e_node_dflt = 0xA, e_buf_addr = 0x7FFC10A2B4, e_send = (\<lambda>k. Some IL_EIO),
        e_recv = (\<lambda>k. []),
        e_subs = (\<lambda>k. \<lparr>subs = (\<lambda>i. \<lparr>sub_id = 1, sub_cb = 100, sub_ctx = 7\<rparr>),
                         subs_alloc = 1, subs_cnt = 1, subs_sz = 1\<rparr>),
        e_connect = (\<lambda>k. - 1), e_stop_reconnect = (\<lambda>k. if k < 3 then 0 else 1)\<rparr>
       \<lparr>error_count = 0, l_buf = 0, l_stop = 0, polls = 0, connects = 0,
        flag_reads = 0, reconnects = 0, calls = []\<rparr> = Some s2
     \<and> polls s2 = 10 \<and> reconnects s2 = 1 \<and> connects s2 = 3"
proof -
  define E :: eth_env where
    "E = \<lparr>e_node_dflt = 0xA, e_buf_addr = 0x7FFC10A2B4, e_send = (\<lambda>k. Some IL_EIO),
        e_recv = (\<lambda>k. []),
        e_subs = (\<lambda>k. \<lparr>subs = (\<lambda>i. \<lparr>sub_id = 1, sub_cb = 100, sub_ctx = 7\<rparr>),
                         subs_alloc = 1, subs_cnt = 1, subs_sz = 1\<rparr>),
        e_connect = (\<lambda>k. - 1), e_stop_reconnect = (\<lambda>k. if k < 3 then 0 else 1)\<rparr>"
  define S :: listener_state where
    "S = \<lparr>error_count = 0, l_buf = 0, l_stop = 0, polls = 0, connects = 0,
        flag_reads = 0, reconnects = 0, calls = []\<rparr>"
  have np: "\<not> poll_ok E k" for k by (simp add: poll_ok_def E_def)
  have p0: "polls S = 0" and f0: "flag_reads S = 0" and r0: "reconnects S = 0"
    and c0: "connects S = 0"
    by (simp_all add: S_def)
  have run: "\<exists>n. polls S \<le> n \<and> (\<forall>j<10. \<not> poll_ok E (n + j))" using np by blast
  have run0: "polls S \<le> 0 \<and> (\<forall>j<10. \<not> poll_ok E (0 + j))" using np p0 by simp
  have looping: "(\<forall>i<3. e_stop_reconnect E (flag_reads S + i) = 0 \<and> e_connect E (connects S + i) < 0)
            \<and> (\<forall>k\<ge>flag_reads S + 3. e_stop_reconnect E k \<noteq> 0)"
    by (simp add: E_def f0)
  note t = listener_eth_reconnects [of E S]
  from t have t2: "(\<exists>s1. poll_loop E (S\<lparr>error_count := 0\<rparr>) = Some s1) \<longleftrightarrow>
        (\<exists>n. polls S \<le> n \<and> (\<forall>j<10. \<not> poll_ok E (n + j)))"
    by (elim conjE)
  with run obtain s1 where p: "poll_loop E (S\<lparr>error_count := 0\<rparr>) = Some s1" by blast
  from t have t3: "\<forall>s1. poll_loop E (S\<lparr>error_count := 0\<rparr>) = Some s1 \<longrightarrow>
         error_count s1 = 10 \<and> polls S + 10 \<le> polls s1
         \<and> (\<forall>j<10. \<not> poll_ok E (polls s1 - 10 + j))
         \<and> (\<forall>n. polls S \<le> n \<and> (\<forall>j<10. \<not> poll_ok E (n + j)) \<longrightarrow> polls s1 \<le> n + 10)
         \<and> (\<forall>r s2. il_net_reconnect E (s1\<lparr>reconnects := reconnects s1 + 1\<rparr>) = Some (r, s2) \<longrightarrow>
               listener_eth E S = (if r = 0 then listener_eth E s2 else Some s2)
               \<and> (e_stop_reconnect E (flag_reads s2 - 1) \<noteq> 0 \<longrightarrow>
                     listener_eth E S = Some s2 \<and> polls s2 = polls s1 \<and> calls s2 = calls s1)
               \<and> (e_stop_reconnect E (flag_reads s2 - 1) = 0 \<longrightarrow>
                     listener_eth E S = listener_eth E s2))"
    by (elim conjE)
  from t3 p have ec: "error_count s1 = 10" and lo: "polls S + 10 \<le> polls s1"
    and hi: "\<forall>n. polls S \<le> n \<and> (\<forall>j<10. \<not> poll_ok E (n + j)) \<longrightarrow> polls s1 \<le> n + 10"
    by blast+
  from hi run0 have "polls s1 \<le> 0 + 10" by blast
  with lo p0 have ps: "polls s1 = 10" by simp
  from t have t7: "\<forall>m. (\<forall>i<m. e_stop_reconnect E (flag_reads S + i) = 0 \<and> e_connect E (connects S + i) < 0)
            \<and> (\<forall>k\<ge>flag_reads S + m. e_stop_reconnect E k \<noteq> 0) \<longrightarrow>
         (\<exists>r s'. il_net_reconnect E S = Some (r, s') \<and> r \<noteq> 0
                 \<and> connects s' = connects S + m \<and> polls s' = polls S)
         \<and> (\<forall>s1. poll_loop E (S\<lparr>error_count := 0\<rparr>) = Some s1 \<longrightarrow>
               (\<exists>s2. listener_eth E S = Some s2 \<and> polls s2 = polls s1 \<and> calls s2 = calls s1
                     \<and> reconnects s2 = reconnects S + 1 \<and> connects s2 = connects S + m))"
    by (elim conjE)
  with looping p obtain s2 where
    l: "listener_eth E S = Some s2" and p2: "polls s2 = polls s1"
    and r2: "reconnects s2 = reconnects S + 1" and c2: "connects s2 = connects S + 3"
    by blast
  have "poll_loop E (S\<lparr>error_count := 0\<rparr>) = Some s1 \<and> error_count s1 = 10 \<and> polls s1 = 10
        \<and> listener_eth E S = Some s2 \<and> polls s2 = 10 \<and> reconnects s2 = 1 \<and> connects s2 = 3"
    using p ec ps l p2 r2 c2 r0 c0 by simp
  then show ?thesis unfolding E_def S_def by blast
qed

end
